theory Spec2Isabelle
  imports Main "HOL-Library.Word"
begin

unbundle bit_operations_syntax

section \<open>bugfruit: an embedded key-value store over an append-only log file\<close>

text \<open>
  A shallow embedding of the Go package \<^verbatim>\<open>bugfruit\<close> (\<^verbatim>\<open>meta.go\<close>, \<^verbatim>\<open>datum.go\<close>,
  \<^verbatim>\<open>map.go\<close>, \<^verbatim>\<open>storage.go\<close>). Go's \<^verbatim>\<open>byte\<close>, \<^verbatim>\<open>uint32\<close> and \<^verbatim>\<open>uint64\<close> are words of that
  width, so every addition wraps as it does in Go. A Go \<^verbatim>\<open>string\<close> is an immutable
  sequence of bytes and \<^verbatim>\<open>[]byte(key)\<close> is that same sequence, so keys and values are
  both byte lists; a \<^verbatim>\<open>nil\<close> slice and an empty slice are both the empty list.
\<close>

type_synonym byte = "8 word"
type_synonym uint32 = "32 word"
type_synonym uint64 = "64 word"

subsection \<open>Errors\<close>

text \<open>
  The sentinel errors of \<^verbatim>\<open>io\<close>, \<^verbatim>\<open>os\<close> and of the package itself are constructors.
  \<open>OsError\<close> is a \<^verbatim>\<open>syscall.Errno\<close>, given by its text; \<open>PathError op path e\<close> is the
  \<^verbatim>\<open>*fs.PathError\<close> in which \<^verbatim>\<open>os\<close> wraps the failure \<open>e\<close> of the operation \<open>op\<close> on the
  file \<open>path\<close>; \<open>Errorf\<close> is an error built by \<^verbatim>\<open>fmt.Errorf\<close> without \<^verbatim>\<open>%w\<close>, and
  \<open>Wrapf p e\<close> is \<^verbatim>\<open>fmt.Errorf(p + "%w", e)\<close>, whose message is the prefix followed by the
  message of the wrapped error.
\<close>

datatype error =
    EOF
  | ErrClosed
  | ErrInvalidMetaSlice
  | ErrInvalidKeyValSlice
  | OsError string
  | PathError string string error
  | Errorf string
  | Wrapf string error

fun message :: "error \<Rightarrow> string" where
  "message EOF = ''EOF''"
| "message ErrClosed = ''file already closed''"
| "message ErrInvalidMetaSlice = ''invalid meta slice''"
| "message ErrInvalidKeyValSlice = ''invalid key/val slice''"
| "message (OsError m) = m"
| "message (PathError opn path e) = opn @ '' '' @ path @ '': '' @ message e"
| "message (Errorf m) = m"
| "message (Wrapf p e) = p @ message e"

text \<open>
  The two errors of the operating system that occur below, and
  \<^verbatim>\<open>errors.Is(err, os.ErrNotExist)\<close>: it follows \<^verbatim>\<open>Unwrap\<close> through \<^verbatim>\<open>%w\<close> and through a
  \<^verbatim>\<open>PathError\<close>, and a \<^verbatim>\<open>syscall.Errno\<close> matches when it is \<^verbatim>\<open>ENOENT\<close>.
\<close>

definition EIO :: error where
  "EIO = OsError ''input/output error''"

definition ENOENT :: error where
  "ENOENT = OsError ''no such file or directory''"

fun is_ErrNotExist :: "error \<Rightarrow> bool" where
  "is_ErrNotExist (Wrapf p e) = is_ErrNotExist e"
| "is_ErrNotExist (PathError opn path e) = is_ErrNotExist e"
| "is_ErrNotExist e = (e = ENOENT)"

text \<open>The verb \<^verbatim>\<open>%d\<close> of \<^verbatim>\<open>fmt\<close>: a non-negative integer in decimal.\<close>

definition digit :: "nat \<Rightarrow> char" where
  "digit n = ''0123456789'' ! (n mod 10)"

fun fmt_d :: "nat \<Rightarrow> string" where
  "fmt_d n = (if n < 10 then [digit n] else fmt_d (n div 10) @ [digit n])"

declare fmt_d.simps [simp del]

subsection \<open>The header: \<^verbatim>\<open>meta.go\<close>\<close>

definition metaSize :: nat where
  "metaSize = 9"

record meta =
  keySize :: uint32
  valSize :: uint32
  deleted :: byte

text \<open>
  \<^verbatim>\<open>binary.LittleEndian.Uint32\<close> and \<^verbatim>\<open>PutUint32\<close> of the Go standard library: the least
  significant byte comes first.
\<close>

definition le_Uint32 :: "byte list \<Rightarrow> uint32" where
  "le_Uint32 b = ucast (b ! 0) OR push_bit 8 (ucast (b ! 1))
     OR push_bit 16 (ucast (b ! 2)) OR push_bit 24 (ucast (b ! 3))"

definition le_PutUint32 :: "uint32 \<Rightarrow> byte list" where
  "le_PutUint32 v = [ucast v, ucast (drop_bit 8 v), ucast (drop_bit 16 v), ucast (drop_bit 24 v)]"

definition meta_FromBytes :: "byte list \<Rightarrow> error + meta" where
  "meta_FromBytes b =
     (if length b \<noteq> metaSize then Inl ErrInvalidMetaSlice
      else Inr \<lparr>keySize = le_Uint32 (take 4 b),
                valSize = le_Uint32 (take 4 (drop 4 b)),
                deleted = b ! 8\<rparr>)"

definition meta_Bytes :: "meta \<Rightarrow> byte list" where
  "meta_Bytes m = le_PutUint32 (keySize m) @ le_PutUint32 (valSize m) @ [deleted m]"

subsection \<open>The record: \<^verbatim>\<open>datum.go\<close>\<close>

text \<open>
  A \<^verbatim>\<open>*datum\<close> of this package always carries a header: the only places that build one
  are \<^verbatim>\<open>newDatum\<close> (\<^verbatim>\<open>meta: &meta{}\<close>) and \<^verbatim>\<open>readDatum\<close> (\<^verbatim>\<open>meta: m\<close>), and each header
  belongs to one datum. The header is therefore a field of the record, and the
  \<^verbatim>\<open>d.meta == nil\<close> branch of \<^verbatim>\<open>KeyValFromBytes\<close> (\<^verbatim>\<open>ErrNoMetadata\<close>) has no input of this
  type. The field \<^verbatim>\<open>value\<close> is called \<open>dvalue\<close>.
\<close>

record datum =
  meta :: meta
  key :: "byte list"
  dvalue :: "byte list"
  idx :: uint32

definition newDatum :: datum where
  "newDatum = \<lparr>meta = \<lparr>keySize = 0, valSize = 0, deleted = 0\<rparr>, key = [], dvalue = [], idx = 0\<rparr>"

text \<open>\<^verbatim>\<open>datum.Set\<close> always returns \<^verbatim>\<open>nil\<close>; \<^verbatim>\<open>uint32(len(x))\<close> keeps the low 32 bits.\<close>

definition datum_Set :: "datum \<Rightarrow> byte list \<Rightarrow> byte list \<Rightarrow> datum" where
  "datum_Set d k v =
     (let d1 = (if v \<noteq> dvalue d
                then d\<lparr>meta := (meta d)\<lparr>valSize := of_nat (length v)\<rparr>, dvalue := v\<rparr>
                else d)
      in if k \<noteq> key d1
         then d1\<lparr>meta := (meta d1)\<lparr>keySize := of_nat (length k)\<rparr>, key := k\<rparr>
         else d1)"

definition MarkDeleted :: "datum \<Rightarrow> datum" where
  "MarkDeleted d = d\<lparr>meta := (meta d)\<lparr>deleted := 1\<rparr>\<rparr>"

definition Deleted :: "datum \<Rightarrow> byte" where
  "Deleted d = deleted (meta d)"

definition Size :: "datum \<Rightarrow> uint32" where
  "Size d = keySize (meta d) + valSize (meta d) + of_nat metaSize"

text \<open>
  The builtin \<^verbatim>\<open>copy(dst, src)\<close> onto a freshly made (zeroed) destination of \<open>n\<close>
  bytes: it copies \<open>min n (length src)\<close> bytes and leaves the rest zero.
\<close>

definition copy_into :: "nat \<Rightarrow> byte list \<Rightarrow> byte list" where
  "copy_into n src = take n src @ replicate (n - length src) 0"

text \<open>
  \<^verbatim>\<open>datum.Bytes\<close>. The buffer has \<^verbatim>\<open>d.Size()\<close> bytes, a 32-bit sum. The three slice
  expressions \<^verbatim>\<open>b[:metaSize]\<close>, \<^verbatim>\<open>b[metaSize:metaSize+keySize]\<close> and
  \<^verbatim>\<open>b[metaSize+keySize:]\<close> panic when their bounds are out of order or beyond the
  buffer; \<open>None\<close> is that run-time panic.
\<close>

definition datum_Bytes :: "datum \<Rightarrow> byte list option" where
  "datum_Bytes d =
     (let sz = unat (Size d);
          ke = unat (of_nat metaSize + keySize (meta d) :: uint32)
      in if sz < metaSize then None
         else if ke < metaSize \<or> sz < ke then None
         else Some (copy_into metaSize (meta_Bytes (meta d))
                    @ copy_into (ke - metaSize) (key d)
                    @ copy_into (sz - ke) (dvalue d)))"

text \<open>
  \<^verbatim>\<open>datum.KeyValFromBytes\<close>. The slice \<open>b\<close> comes from \<^verbatim>\<open>make\<close>, so its capacity is its
  length. \<open>None\<close> is the panic of \<^verbatim>\<open>b[:keySize]\<close> or \<^verbatim>\<open>b[keySize:keySize+valSize]\<close>
  on bounds that are out of order or beyond the slice.
\<close>

definition KeyValFromBytes :: "datum \<Rightarrow> byte list \<Rightarrow> (error + datum) option" where
  "KeyValFromBytes d b =
     (let ks = keySize (meta d); hi = keySize (meta d) + valSize (meta d)
      in if (of_nat (length b) :: uint32) \<noteq> hi then Some (Inl ErrInvalidKeyValSlice)
         else if length b < unat ks then None
         else if unat hi < unat ks \<or> length b < unat hi then None
         else Some (Inr (d\<lparr>key := take (unat ks) b,
                            dvalue := take (unat hi - unat ks) (drop (unat ks) b)\<rparr>)))"

subsection \<open>The operating system\<close>

text \<open>
  The package reaches the file system through \<^verbatim>\<open>os.File\<close>. The model of it: a directory
  maps a path to an inode, an inode holds a sequence of bytes, and an open handle is an
  inode with a cursor. Every system call first consults a schedule of faults: the head
  of \<open>faults\<close> says whether this call fails with an input/output error and no effect;
  an empty schedule means that every call succeeds. \<open>journal\<close> records each completed
  write (inode, offset, bytes) in the order the writes reach the file. A handle keeps
  the name it was opened with, and a method of \<^verbatim>\<open>os.File\<close> that fails returns a
  \<^verbatim>\<open>PathError\<close> with the operation and that name (only \<^verbatim>\<open>io.EOF\<close> is returned as it is);
  on a closed handle the wrapped error is \<^verbatim>\<open>os.ErrClosed\<close>. \<open>tempname\<close> is the name that
  \<^verbatim>\<open>os.CreateTemp\<close> picks: the temporary directory, the pattern and a random number.
\<close>

record world =
  dir :: "string \<rightharpoonup> nat"
  inodes :: "nat \<Rightarrow> byte list"
  next_ino :: nat
  faults :: "bool list"
  journal :: "(nat \<times> nat \<times> byte list) list"
  tempname :: string

record osfile =
  fname :: string
  ino :: nat
  pos :: nat
  closed :: bool

datatype whence = SeekStart | SeekCurrent | SeekEnd

definition next_fault :: "world \<Rightarrow> bool \<times> world" where
  "next_fault w = (case faults w of [] \<Rightarrow> (False, w) | b # bs \<Rightarrow> (b, w\<lparr>faults := bs\<rparr>))"

definition closed_error :: "string \<Rightarrow> osfile \<Rightarrow> error" where
  "closed_error opn f = PathError opn (fname f) ErrClosed"

definition io_error :: "string \<Rightarrow> osfile \<Rightarrow> error" where
  "io_error opn f = PathError opn (fname f) EIO"

text \<open>The bytes a read of \<open>n\<close> bytes at offset \<open>p\<close> finds, and the content after a
  write of \<open>b\<close> at offset \<open>p\<close> (a write beyond the end leaves a gap of zeros).\<close>

definition read_at :: "byte list \<Rightarrow> nat \<Rightarrow> nat \<Rightarrow> byte list" where
  "read_at c p n = take n (drop p c)"

definition write_at :: "byte list \<Rightarrow> nat \<Rightarrow> byte list \<Rightarrow> byte list" where
  "write_at c p b = take p c @ replicate (p - length c) 0 @ b @ drop (p + length b) c"

text \<open>
  \<^verbatim>\<open>File.Read\<close>: a closed handle is an error; an empty buffer reads nothing without a
  system call; at or beyond the end of the file the result is \<^verbatim>\<open>0, io.EOF\<close>; otherwise
  the bytes that are there, up to the size of the buffer, and no error.
\<close>

definition os_Read :: "world \<Rightarrow> osfile \<Rightarrow> nat \<Rightarrow> byte list \<times> error option \<times> world \<times> osfile" where
  "os_Read w f n =
     (if closed f then ([], Some (closed_error ''read'' f), w, f)
      else if n = 0 then ([], None, w, f)
      else let (bad, w1) = next_fault w in
        if bad then ([], Some (io_error ''read'' f), w1, f)
        else let got = read_at (inodes w1 (ino f)) (pos f) n in
          if got = [] then ([], Some EOF, w1, f)
          else (got, None, w1, f\<lparr>pos := pos f + length got\<rparr>))"

text \<open>\<^verbatim>\<open>File.Write\<close> returns a non-nil error whenever it wrote fewer bytes than given.\<close>

definition os_Write :: "world \<Rightarrow> osfile \<Rightarrow> byte list \<Rightarrow> nat \<times> error option \<times> world \<times> osfile" where
  "os_Write w f b =
     (if closed f then (0, Some (closed_error ''write'' f), w, f)
      else if b = [] then (0, None, w, f)
      else let (bad, w1) = next_fault w in
        if bad then (0, Some (io_error ''write'' f), w1, f)
        else (length b, None,
              w1\<lparr>inodes := (inodes w1)(ino f := write_at (inodes w1 (ino f)) (pos f) b),
                 journal := journal w1 @ [(ino f, pos f, b)]\<rparr>,
              f\<lparr>pos := pos f + length b\<rparr>))"

text \<open>\<^verbatim>\<open>File.Seek\<close>; the package only seeks to offsets that are not negative.\<close>

definition os_Seek :: "world \<Rightarrow> osfile \<Rightarrow> nat \<Rightarrow> whence \<Rightarrow> nat \<times> error option \<times> world \<times> osfile" where
  "os_Seek w f off wh =
     (if closed f then (0, Some (closed_error ''seek'' f), w, f)
      else let (bad, w1) = next_fault w in
        if bad then (0, Some (io_error ''seek'' f), w1, f)
        else let p = (case wh of SeekStart \<Rightarrow> off
                               | SeekCurrent \<Rightarrow> pos f + off
                               | SeekEnd \<Rightarrow> length (inodes w1 (ino f)) + off)
             in (p, None, w1, f\<lparr>pos := p\<rparr>))"

definition os_Sync :: "world \<Rightarrow> osfile \<Rightarrow> error option \<times> world" where
  "os_Sync w f =
     (if closed f then (Some (closed_error ''sync'' f), w)
      else let (bad, w1) = next_fault w in
        if bad then (Some (io_error ''sync'' f), w1) else (None, w1))"

definition os_Truncate :: "world \<Rightarrow> osfile \<Rightarrow> nat \<Rightarrow> error option \<times> world" where
  "os_Truncate w f n =
     (if closed f then (Some (closed_error ''truncate'' f), w)
      else let (bad, w1) = next_fault w in
        if bad then (Some (io_error ''truncate'' f), w1)
        else (None, w1\<lparr>inodes := (inodes w1)(ino f := copy_into n (inodes w1 (ino f)))\<rparr>))"

text \<open>\<^verbatim>\<open>File.Close\<close>: the handle is closed even when the system call reports an error.\<close>

definition os_Close :: "world \<Rightarrow> osfile \<Rightarrow> error option \<times> world \<times> osfile" where
  "os_Close w f =
     (if closed f then (Some (closed_error ''close'' f), w, f)
      else let (bad, w1) = next_fault w in
        (if bad then Some (io_error ''close'' f) else None, w1, f\<lparr>closed := True\<rparr>))"

text \<open>\<^verbatim>\<open>os.Remove\<close> unlinks the path; an inode that is still open keeps its bytes.\<close>

definition os_Remove :: "world \<Rightarrow> string \<Rightarrow> error option \<times> world" where
  "os_Remove w path =
     (let (bad, w1) = next_fault w in
        if bad then (Some (PathError ''remove'' path EIO), w1)
        else if dir w1 path = None then (Some (PathError ''remove'' path ENOENT), w1)
        else (None, w1\<lparr>dir := (dir w1)(path := None)\<rparr>))"

text \<open>\<^verbatim>\<open>os.OpenFile(path, os.O_RDWR|os.O_CREATE, mode)\<close>; permissions are not modelled.\<close>

definition os_OpenFile :: "world \<Rightarrow> string \<Rightarrow> (error + osfile) \<times> world" where
  "os_OpenFile w path =
     (let (bad, w1) = next_fault w in
        if bad then (Inl (PathError ''open'' path EIO), w1)
        else (case dir w1 path of
            Some i \<Rightarrow> (Inr \<lparr>fname = path, ino = i, pos = 0, closed = False\<rparr>, w1)
          | None \<Rightarrow>
              (Inr \<lparr>fname = path, ino = next_ino w1, pos = 0, closed = False\<rparr>,
               w1\<lparr>dir := (dir w1)(path \<mapsto> next_ino w1),
                  inodes := (inodes w1)(next_ino w1 := []),
                  next_ino := Suc (next_ino w1)\<rparr>)))"

text \<open>
  The file of \<^verbatim>\<open>os.CreateTemp("", "bugfruit-cleanup")\<close> has a name of its own that no
  other handle refers to, so it is a private sequence of bytes with a cursor. Its
  system calls consult the same schedule of faults, and their errors carry its name;
  \<^verbatim>\<open>CreateTemp\<close> opens the file with \<^verbatim>\<open>OpenFile\<close> and returns the error of that call.
  \<^verbatim>\<open>vacuum\<close> removes the file on return and ignores the result of that removal.
\<close>

record tmpfile =
  tname :: string
  tbytes :: "byte list"
  tpos :: nat

definition os_CreateTemp :: "world \<Rightarrow> (error + tmpfile) \<times> world" where
  "os_CreateTemp w =
     (let (bad, w1) = next_fault w in
        if bad then (Inl (PathError ''open'' (tempname w1) EIO), w1)
        else (Inr \<lparr>tname = tempname w1, tbytes = [], tpos = 0\<rparr>, w1))"

definition tmp_Write :: "world \<Rightarrow> tmpfile \<Rightarrow> byte list \<Rightarrow> nat \<times> error option \<times> world \<times> tmpfile" where
  "tmp_Write w t b =
     (if b = [] then (0, None, w, t)
      else let (bad, w1) = next_fault w in
        if bad then (0, Some (PathError ''write'' (tname t) EIO), w1, t)
        else (length b, None, w1,
              t\<lparr>tbytes := write_at (tbytes t) (tpos t) b, tpos := tpos t + length b\<rparr>))"

definition tmp_Seek :: "world \<Rightarrow> tmpfile \<Rightarrow> nat \<Rightarrow> whence \<Rightarrow> nat \<times> error option \<times> world \<times> tmpfile" where
  "tmp_Seek w t off wh =
     (let (bad, w1) = next_fault w in
        if bad then (0, Some (PathError ''seek'' (tname t) EIO), w1, t)
        else let p = (case wh of SeekStart \<Rightarrow> off
                               | SeekCurrent \<Rightarrow> tpos t + off
                               | SeekEnd \<Rightarrow> length (tbytes t) + off)
             in (p, None, w1, t\<lparr>tpos := p\<rparr>))"

definition tmp_Read :: "world \<Rightarrow> tmpfile \<Rightarrow> nat \<Rightarrow> byte list \<times> error option \<times> world \<times> tmpfile" where
  "tmp_Read w t n =
     (if n = 0 then ([], None, w, t)
      else let (bad, w1) = next_fault w in
        if bad then ([], Some (PathError ''read'' (tname t) EIO), w1, t)
        else let got = read_at (tbytes t) (tpos t) n in
          if got = [] then ([], Some EOF, w1, t)
          else (got, None, w1, t\<lparr>tpos := tpos t + length got\<rparr>))"

subsection \<open>The index: \<^verbatim>\<open>map.go\<close>\<close>

text \<open>
  \<^verbatim>\<open>muMap\<close> is a Go map from key to \<^verbatim>\<open>*datum\<close> under a reader-writer lock. Each of
  \<^verbatim>\<open>Store\<close>, \<^verbatim>\<open>Load\<close> and \<^verbatim>\<open>LoadAndDelete\<close> takes the lock and releases it before it
  returns, and \<^verbatim>\<open>Snapshot\<close> takes only the read lock of the map it iterates, so in one
  goroutine the lock is never requested while held; it is left out.

  Every map entry points to a datum of its own (\<^verbatim>\<open>Store\<close> is only called with a datum
  just made), so the map holds the datum itself. Where the code changes a datum
  through a pointer that the map also holds, the model writes the changed datum back
  under its key; each such place says so.
\<close>

type_synonym muMap = "byte list \<rightharpoonup> datum"

definition Store :: "muMap \<Rightarrow> byte list \<Rightarrow> datum \<Rightarrow> muMap" where
  "Store m k d = m(k \<mapsto> d)"

definition Load :: "muMap \<Rightarrow> byte list \<Rightarrow> datum option" where
  "Load m k = m k"

definition LoadAndDelete :: "muMap \<Rightarrow> byte list \<Rightarrow> datum option \<times> muMap" where
  "LoadAndDelete m k = (case m k of Some d \<Rightarrow> (Some d, m(k := None)) | None \<Rightarrow> (None, m))"

subsection \<open>The engine: \<^verbatim>\<open>storage.go\<close>\<close>

record Config =
  VacuumBatch :: uint64
  FsyncBatch :: uint64

text \<open>
  The field \<^verbatim>\<open>file\<close> is called \<open>dbfile\<close>. \<open>muFile\<close> is \<^verbatim>\<open>sync.Mutex\<close>: \<open>True\<close> while
  held. The channel \<^verbatim>\<open>closed\<close> is never made, so it is always \<^verbatim>\<open>nil\<close> and \<^verbatim>\<open>Close\<close> skips it.
\<close>

record Storage =
  name :: string
  dbfile :: osfile
  writeCountSync :: uint64
  writeCountVacuum :: uint64
  muFile :: bool
  data :: muMap
  idx :: uint32
  config :: Config

text \<open>
  A call either returns, or blocks for ever, or panics. \<^verbatim>\<open>sync.Mutex\<close> is not reentrant:
  \<^verbatim>\<open>Lock\<close> on a mutex that the calling goroutine already holds never returns.
\<close>

datatype 'a outcome = Blocked | Panicked | Returned 'a

text \<open>
  \<^verbatim>\<open>s.muFile.Lock(); defer s.muFile.Unlock()\<close> around a method body: the mutex is
  released on every return of the body.
\<close>

definition with_muFile ::
  "Storage \<Rightarrow> (Storage \<Rightarrow> ('r \<times> world \<times> Storage) outcome) \<Rightarrow> ('r \<times> world \<times> Storage) outcome" where
  "with_muFile s body =
     (if muFile s then Blocked
      else (case body (s\<lparr>muFile := True\<rparr>) of
          Blocked \<Rightarrow> Blocked
        | Panicked \<Rightarrow> Panicked
        | Returned (r, w, s') \<Rightarrow> Returned (r, w, s'\<lparr>muFile := False\<rparr>)))"

definition Get :: "Storage \<Rightarrow> byte list \<Rightarrow> byte list \<times> bool" where
  "Get s k = (case Load (data s) k of None \<Rightarrow> ([], False) | Some d \<Rightarrow> (dvalue d, True))"

definition Name :: "Storage \<Rightarrow> string" where
  "Name s = name s"

text \<open>
  \<^verbatim>\<open>readDatum\<close>. The result is \<open>Inl e\<close> for \<^verbatim>\<open>(nil, e)\<close>, \<open>Inr None\<close> for \<^verbatim>\<open>(nil, nil)\<close>
  (a tombstoned record was skipped) and \<open>Inr (Some d)\<close> for \<^verbatim>\<open>(d, nil)\<close>. The first
  test of the source, \<^verbatim>\<open>err != nil && (err != io.EOF || (err == io.EOF && n != 0))\<close>
  followed by \<^verbatim>\<open>err == io.EOF\<close>, is the case distinction on \<open>err\<close> below. The header
  buffer always has \<open>metaSize\<close> bytes, whatever the read filled.
\<close>

definition readDatum :: "world \<Rightarrow> Storage \<Rightarrow> ((error + datum option) \<times> world \<times> Storage) outcome" where
  "readDatum w s =
     (let (got, err, w1, f1) = os_Read w (dbfile s) metaSize;
          buf = copy_into metaSize got;
          s1 = s\<lparr>dbfile := f1\<rparr>
      in case err of
          Some e \<Rightarrow>
            if e \<noteq> EOF \<or> length got \<noteq> 0
            then Returned (Inl (Wrapf (''reading database file: reading metadata: read ''
                                  @ fmt_d (length got) @ '' bytes: '') e), w1, s1)
            else Returned (Inl EOF, w1, s1)
        | None \<Rightarrow>
           (case meta_FromBytes buf of
              Inl e \<Rightarrow> Returned (Inl (Wrapf ''reading database file: converting metadata: '' e), w1, s1)
            | Inr m \<Rightarrow>
               (let totalSize = keySize m + valSize m in
                if deleted m = 1 then
                  (let (r, err2, w2, f2) = os_Seek w1 f1 (unat totalSize) SeekCurrent;
                       s2 = s1\<lparr>dbfile := f2\<rparr>
                   in case err2 of
                        Some e \<Rightarrow> Returned (Inl (Wrapf ''reading database file: skipping deleted: '' e), w2, s2)
                      | None \<Rightarrow> Returned (Inr None, w2,
                                  s2\<lparr>idx := Storage.idx s2 + (totalSize + of_nat metaSize)\<rparr>))
                else
                  (let (got2, err2, w2, f2) = os_Read w1 f1 (unat totalSize);
                       buf2 = copy_into (unat totalSize) got2;
                       s2 = s1\<lparr>dbfile := f2\<rparr>
                   in if err2 \<noteq> None \<and> err2 \<noteq> Some EOF
                      then Returned (Inl (Wrapf ''reading database file: reading key/val data: ''
                                      (case err2 of Some e \<Rightarrow> e | None \<Rightarrow> EOF)), w2, s2)
                      else if (of_nat (length got2) :: uint32) \<noteq> totalSize
                      then Returned (Inl (Errorf (''reading database file: reading key/val data: read ''
                                      @ fmt_d (length got2) @ '' bytes, need '' @ fmt_d (unat totalSize))),
                                     w2, s2)
                      else (case KeyValFromBytes
                                   \<lparr>meta = m, key = [], dvalue = [], idx = Storage.idx s2\<rparr> buf2 of
                          None \<Rightarrow> Panicked
                        | Some (Inl e) \<Rightarrow>
                            Returned (Inl (Wrapf ''reading database file: converting key/val data: '' e), w2, s2)
                        | Some (Inr d) \<Rightarrow>
                            Returned (Inr (Some d), w2, s2\<lparr>idx := Storage.idx s2 + Size d\<rparr>))))))"

text \<open>
  \<^verbatim>\<open>vacuum\<close>, first loop: every record that \<^verbatim>\<open>readDatum\<close> returns is written to the
  temporary file; \<open>cleanedSize\<close> is a Go \<^verbatim>\<open>int\<close> of 64 bits, here a natural number.
\<close>

function vacuum_read ::
  "world \<Rightarrow> Storage \<Rightarrow> tmpfile \<Rightarrow> nat \<Rightarrow> (error option \<times> world \<times> Storage \<times> tmpfile \<times> nat) outcome" where
  "vacuum_read w s cleaned cleanedSize =
     (case readDatum w s of
        Blocked \<Rightarrow> Blocked
      | Panicked \<Rightarrow> Panicked
      | Returned (r, w1, s1) \<Rightarrow>
         (case r of
            Inl e \<Rightarrow>
              if e = EOF then Returned (None, w1, s1, cleaned, cleanedSize)
              else Returned (Some (Wrapf ''reading datum: '' e), w1, s1, cleaned, cleanedSize)
          | Inr None \<Rightarrow> vacuum_read w1 s1 cleaned cleanedSize
          | Inr (Some d) \<Rightarrow>
             (case datum_Bytes d of
                None \<Rightarrow> Panicked
              | Some toWrite \<Rightarrow>
                 (let n = length toWrite;
                      (written, err, w2, cleaned2) = tmp_Write w1 cleaned toWrite
                  in case err of
                       Some e \<Rightarrow>
                         Returned (Some (Wrapf (''writing '' @ fmt_d n @ '' bytes to cleanup file, wrote ''
                                           @ fmt_d written @ '': '') e),
                                   w2, s1, cleaned2, cleanedSize + n)
                     | None \<Rightarrow>
                         if written \<noteq> n
                         then Returned (Some (Errorf (''writing '' @ fmt_d n @ '' bytes to cleanup file, wrote ''
                                           @ fmt_d written @ '': %!w(<nil>)'')),
                                   w2, s1, cleaned2, cleanedSize + n)
                         else vacuum_read w2 s1 cleaned2 (cleanedSize + n)))))"
  by pat_completeness auto
termination vacuum_read
proof -
  have progress: "inodes w1 = inodes w \<and> ino (dbfile s1) = ino (dbfile s)
       \<and> pos (dbfile s) < length (inodes w (ino (dbfile s)))
       \<and> pos (dbfile s) < pos (dbfile s1)"
    if "readDatum w s = Returned (Inr x, w1, s1)" for w s x w1 s1
    using that
    by (auto simp: readDatum_def os_Read_def os_Seek_def next_fault_def read_at_def Let_def metaSize_def
        split: prod.splits option.splits sum.splits if_splits list.splits)
  have tmp: "inodes w2 = inodes w1"
    if "tmp_Write w1 c b = (n, e, w2, c2)" for w1 c b n e w2 c2
    using that
    by (auto simp: tmp_Write_def next_fault_def Let_def split: if_splits list.splits prod.splits)
  show ?thesis
    apply (relation "measure (\<lambda>(w, s, c, n). length (inodes w (ino (dbfile s))) - pos (dbfile s))")
      apply simp
     apply (auto dest!: progress)[1]
    apply (auto dest!: progress tmp [OF sym])
    done
qed

declare vacuum_read.simps [simp del]

text \<open>
  \<^verbatim>\<open>vacuum\<close>, second loop: the temporary file is copied back over the database file
  through a buffer of \<^verbatim>\<open>1024*5\<close> bytes.
\<close>

function vacuum_copy :: "world \<Rightarrow> Storage \<Rightarrow> tmpfile \<Rightarrow> (error option \<times> world \<times> Storage) outcome" where
  "vacuum_copy w s cleaned =
     (let (got, err, w1, cleaned1) = tmp_Read w cleaned (1024 * 5)
      in case err of
           Some e \<Rightarrow>
             if e \<noteq> EOF then Returned (Some (Wrapf ''reading from cleaned db: '' e), w1, s)
             else Returned (None, w1, s)
         | None \<Rightarrow>
             if length got = 0 then Returned (None, w1, s)
             else (let (n, err2, w2, f2) = os_Write w1 (dbfile s) got;
                       s2 = s\<lparr>dbfile := f2\<rparr>
                   in case err2 of
                        Some e \<Rightarrow> Returned (Some e, w2, s2)
                      | None \<Rightarrow> vacuum_copy w2 s2 cleaned1))"
  by pat_completeness auto
termination
  apply (relation "measure (\<lambda>(w, s, c). length (tbytes c) - tpos c)")
   apply simp
  apply (auto simp: tmp_Read_def read_at_def next_fault_def Let_def
      split: if_splits prod.splits list.splits)
  done

declare vacuum_copy.simps [simp del]

text \<open>
  The text of \<^verbatim>\<open>fmt.Errorf(p + "%d: %w", r, err)\<close> behind the test
  \<^verbatim>\<open>err != nil || r != 0\<close>; with a \<^verbatim>\<open>nil\<close> error, \<^verbatim>\<open>%w\<close> prints \<^verbatim>\<open>%!w(<nil>)\<close>.
\<close>

definition seek_error :: "string \<Rightarrow> nat \<Rightarrow> error option \<Rightarrow> error option" where
  "seek_error p r err =
     (case err of
        Some e \<Rightarrow> Some (Wrapf (p @ fmt_d r @ '': '') e)
      | None \<Rightarrow> if r \<noteq> 0 then Some (Errorf (p @ fmt_d r @ '': %!w(<nil>)'')) else None)"

definition vacuum :: "world \<Rightarrow> Storage \<Rightarrow> (error option \<times> world \<times> Storage) outcome" where
  "vacuum w s0 = with_muFile s0 (\<lambda>s.
     let (r, err, w1, f1) = os_Seek w (dbfile s) 0 SeekStart;
         s1 = s\<lparr>dbfile := f1\<rparr>
     in case seek_error ''tried to seek to index 0, got to '' r err of
          Some e \<Rightarrow> Returned (Some e, w1, s1)
        | None \<Rightarrow>
           (case os_CreateTemp w1 of
              (Inl e, w2) \<Rightarrow> Returned (Some (Wrapf ''creating temp db file during vacuum: '' e), w2, s1)
            | (Inr cleaned, w2) \<Rightarrow>
               (case vacuum_read w2 s1 cleaned 0 of
                  Blocked \<Rightarrow> Blocked
                | Panicked \<Rightarrow> Panicked
                | Returned (Some e, w3, s3, cleaned3, cleanedSize) \<Rightarrow> Returned (Some e, w3, s3)
                | Returned (None, w3, s3, cleaned3, cleanedSize) \<Rightarrow>
                   (let (sought, err4, w4, cleaned4) = tmp_Seek w3 cleaned3 0 SeekStart
                    in case seek_error ''seeking temporary cleanup file to 0, sought to '' sought err4 of
                         Some e \<Rightarrow> Returned (Some e, w4, s3)
                       | None \<Rightarrow>
                          (let (r5, err5, w5, f5) = os_Seek w4 (dbfile s3) 0 SeekStart;
                               s5 = s3\<lparr>dbfile := f5\<rparr>
                           in case seek_error ''tried to seek to index 0, got to '' r5 err5 of
                                Some e \<Rightarrow> Returned (Some e, w5, s5)
                              | None \<Rightarrow>
                                 (case vacuum_copy w5 s5 cleaned4 of
                                    Blocked \<Rightarrow> Blocked
                                  | Panicked \<Rightarrow> Panicked
                                  | Returned (Some e, w6, s6) \<Rightarrow> Returned (Some e, w6, s6)
                                  | Returned (None, w6, s6) \<Rightarrow>
                                     (let (err7, w7) = os_Truncate w6 (dbfile s6) cleanedSize
                                      in case err7 of
                                           Some e \<Rightarrow> Returned (Some (Wrapf ''truncating cleaned db file: '' e), w7, s6)
                                         | None \<Rightarrow> Returned (None, w7, s6\<lparr>idx := of_nat cleanedSize\<rparr>))))))))"

text \<open>
  \<^verbatim>\<open>incAndSync\<close>. Both counters are incremented first (\<^verbatim>\<open>atomic.AddUint64\<close> wraps at
  64 bits); \<^verbatim>\<open>vacuum\<close> is called with whatever state the mutex is in.
\<close>

definition incAndSync :: "world \<Rightarrow> Storage \<Rightarrow> (error option \<times> world \<times> Storage) outcome" where
  "incAndSync w s =
     (let wcs = writeCountSync s + 1;
          wcv = writeCountVacuum s + 1;
          s2 = s\<lparr>writeCountSync := wcs, writeCountVacuum := wcv\<rparr>
      in case (if 0 < VacuumBatch (config s2) \<and> VacuumBatch (config s2) \<le> wcv
               then (case vacuum w s2 of
                       Blocked \<Rightarrow> Blocked
                     | Panicked \<Rightarrow> Panicked
                     | Returned (Some e, w3, s3) \<Rightarrow>
                         Returned (Some (Errorf (''vacuuming '' @ name s3 @ '': '' @ message e)), w3, s3)
                     | Returned (None, w3, s3) \<Rightarrow> Returned (None, w3, s3\<lparr>writeCountVacuum := 0\<rparr>))
               else Returned (None, w, s2)) of
           Blocked \<Rightarrow> Blocked
         | Panicked \<Rightarrow> Panicked
         | Returned (Some e, w3, s3) \<Rightarrow> Returned (Some e, w3, s3)
         | Returned (None, w3, s3) \<Rightarrow>
             if 0 < FsyncBatch (config s3) \<and> FsyncBatch (config s3) \<le> wcs
             then (let (err, w4) = os_Sync w3 (dbfile s3)
                   in case err of
                        Some e \<Rightarrow> Returned (Some (Wrapf (''syncing '' @ name s3 @ '': '') e), w4, s3)
                      | None \<Rightarrow> Returned (None, w4, s3\<lparr>writeCountSync := 0\<rparr>))
             else Returned (None, w3, s3))"

text \<open>
  \<^verbatim>\<open>writeDatumToFile\<close> stamps \<^verbatim>\<open>d.idx\<close> through the pointer it is given; the stamped datum
  is returned beside the error so that the caller can write it back where that pointer
  lives. \<^verbatim>\<open>d.Bytes()\<close> is evaluated before \<^verbatim>\<open>Write\<close> is called.
\<close>

definition writeDatumToFile ::
  "world \<Rightarrow> Storage \<Rightarrow> datum \<Rightarrow> ((error option \<times> datum) \<times> world \<times> Storage) outcome" where
  "writeDatumToFile w s0 d = with_muFile s0 (\<lambda>s.
     let (offset, err, w1, f1) = os_Seek w (dbfile s) 0 SeekEnd;
         s1 = s\<lparr>dbfile := f1\<rparr>
     in case err of
          Some e \<Rightarrow> Returned ((Some (Wrapf ''seeking to end of file: '' e), d), w1, s1)
        | None \<Rightarrow>
           (let d1 = d\<lparr>datum.idx := of_nat offset\<rparr>
            in case datum_Bytes d1 of
                 None \<Rightarrow> Panicked
               | Some b \<Rightarrow>
                  (let (n, err2, w2, f2) = os_Write w1 f1 b;
                       s2 = s1\<lparr>dbfile := f2\<rparr>
                   in case err2 of
                        Some e \<Rightarrow> Returned ((Some (Wrapf ''writing to db file: '' e), d1), w2, s2)
                      | None \<Rightarrow>
                          if n \<noteq> unat (Size d1)
                          then Returned ((Some (Errorf (''number of bytes written '' @ [CHR 0x27] @ fmt_d n
                                   @ [CHR 0x27] @ '' does not equal size '' @ [CHR 0x27]
                                   @ fmt_d (unat (Size d1)) @ [CHR 0x27])), d1), w2, s2)
                          else (case incAndSync w2 s2 of
                                  Blocked \<Rightarrow> Blocked
                                | Panicked \<Rightarrow> Panicked
                                | Returned (r, w3, s3) \<Rightarrow> Returned ((r, d1), w3, s3)))))"

definition writeDeletedByte :: "world \<Rightarrow> Storage \<Rightarrow> datum \<Rightarrow> (error option \<times> world \<times> Storage) outcome" where
  "writeDeletedByte w s0 d = with_muFile s0 (\<lambda>s.
     let delIdx = unat (datum.idx d) + metaSize - 1;
         (ret, err, w1, f1) = os_Seek w (dbfile s) delIdx SeekStart;
         s1 = s\<lparr>dbfile := f1\<rparr>
     in case err of
          Some e \<Rightarrow> Returned (Some (Wrapf (''seeking to '' @ fmt_d (unat (datum.idx d)) @ '': '') e), w1, s1)
        | None \<Rightarrow>
            if ret \<noteq> delIdx
            then Returned (Some (Errorf (''seeking to '' @ fmt_d (unat (datum.idx d)) @ '': sought to ''
                            @ fmt_d ret @ '' instead'')), w1, s1)
            else (let (n, err2, w2, f2) = os_Write w1 f1 [Deleted d];
                      s2 = s1\<lparr>dbfile := f2\<rparr>
                  in case err2 of
                       Some e \<Rightarrow> Returned (Some (Wrapf ''writing to db file: '' e), w2, s2)
                     | None \<Rightarrow>
                         if n \<noteq> 1
                         then Returned (Some (Errorf (''number of bytes written '' @ [CHR 0x27] @ fmt_d n
                                  @ [CHR 0x27] @ '' does not equal size '' @ [CHR 0x27] @ ''1''
                                  @ [CHR 0x27])), w2, s2)
                         else incAndSync w2 s2))"

text \<open>
  \<^verbatim>\<open>reclaimSpace\<close> marks the datum behind its pointer as deleted before it writes; the
  marked datum is returned beside the error.
\<close>

definition reclaimSpace ::
  "world \<Rightarrow> Storage \<Rightarrow> datum \<Rightarrow> ((error option \<times> datum) \<times> world \<times> Storage) outcome" where
  "reclaimSpace w s d =
     (let d1 = MarkDeleted d
      in case writeDeletedByte w s d1 of
           Blocked \<Rightarrow> Blocked
         | Panicked \<Rightarrow> Panicked
         | Returned (Some e, w1, s1) \<Rightarrow> Returned ((Some (Wrapf ''updating db file: '' e), d1), w1, s1)
         | Returned (None, w1, s1) \<Rightarrow> Returned ((None, d1), w1, s1))"

text \<open>
  \<^verbatim>\<open>appendDatum\<close> stores the pointer to the new datum in the map and then hands the same
  pointer to \<^verbatim>\<open>writeDatumToFile\<close>: the offset stamped there is written back to the map
  entry. \<^verbatim>\<open>d.Set\<close> never fails.
\<close>

definition appendDatum ::
  "world \<Rightarrow> Storage \<Rightarrow> byte list \<Rightarrow> byte list \<Rightarrow> (error option \<times> world \<times> Storage) outcome" where
  "appendDatum w s k v =
     (let d = datum_Set newDatum k v;
          s1 = s\<lparr>data := Store (data s) k d\<rparr>
      in case writeDatumToFile w s1 d of
           Blocked \<Rightarrow> Blocked
         | Panicked \<Rightarrow> Panicked
         | Returned ((err, d1), w1, s2) \<Rightarrow> Returned (err, w1, s2\<lparr>data := (data s2)(k \<mapsto> d1)\<rparr>))"

text \<open>
  \<^verbatim>\<open>Set\<close>: the datum that \<^verbatim>\<open>Load\<close> returns is the one the map points to, so the mark
  that \<^verbatim>\<open>reclaimSpace\<close> sets is written back to the entry of \<open>k\<close>.
\<close>

definition Set :: "world \<Rightarrow> Storage \<Rightarrow> byte list \<Rightarrow> byte list \<Rightarrow> (error option \<times> world \<times> Storage) outcome" where
  "Set w s k v =
     (case Load (data s) k of
        Some d \<Rightarrow>
          (case reclaimSpace w s d of
             Blocked \<Rightarrow> Blocked
           | Panicked \<Rightarrow> Panicked
           | Returned ((err, d1), w1, s1) \<Rightarrow>
              (let s2 = s1\<lparr>data := (data s1)(k \<mapsto> d1)\<rparr>
               in case err of
                    Some e \<Rightarrow> Returned (Some (Wrapf ''reclaiming datum space: '' e), w1, s2)
                  | None \<Rightarrow> appendDatum w1 s2 k v))
      | None \<Rightarrow> appendDatum w s k v)"

text \<open>\<^verbatim>\<open>Delete\<close>: the entry leaves the map first, so the mark set on it is not seen again.\<close>

definition Delete :: "world \<Rightarrow> Storage \<Rightarrow> byte list \<Rightarrow> (error option \<times> world \<times> Storage) outcome" where
  "Delete w s k =
     (case LoadAndDelete (data s) k of
        (Some d, m) \<Rightarrow>
          (case reclaimSpace w (s\<lparr>data := m\<rparr>) d of
             Blocked \<Rightarrow> Blocked
           | Panicked \<Rightarrow> Panicked
           | Returned ((Some e, d1), w1, s1) \<Rightarrow> Returned (Some (Wrapf ''reclaiming datum space: '' e), w1, s1)
           | Returned ((None, d1), w1, s1) \<Rightarrow> Returned (None, w1, s1))
      | (None, m) \<Rightarrow> Returned (None, w, s\<lparr>data := m\<rparr>))"

definition Close :: "world \<Rightarrow> Storage \<Rightarrow> (error option \<times> world \<times> Storage) outcome" where
  "Close w s0 = with_muFile s0 (\<lambda>s.
     let (err, w1) = os_Sync w (dbfile s)
     in case err of
          Some e \<Rightarrow> Returned (Some (Wrapf ''closing Storage: '' e), w1, s)
        | None \<Rightarrow>
           (let (err2, w2, f2) = os_Close w1 (dbfile s)
            in case err2 of
                 Some e \<Rightarrow> Returned (Some (Wrapf ''closing Storage: '' e), w2, s\<lparr>dbfile := f2\<rparr>)
               | None \<Rightarrow> Returned (None, w2, s\<lparr>dbfile := f2\<rparr>)))"

text \<open>
  The loop of \<^verbatim>\<open>NewStorage\<close>: it ends when \<^verbatim>\<open>readDatum\<close> returns \<^verbatim>\<open>io.EOF\<close> itself; any
  other error closes the store and is returned wrapped.
\<close>

function scan :: "world \<Rightarrow> Storage \<Rightarrow> ((error + Storage) \<times> world) outcome" where
  "scan w s =
     (case readDatum w s of
        Blocked \<Rightarrow> Blocked
      | Panicked \<Rightarrow> Panicked
      | Returned (r, w1, s1) \<Rightarrow>
         (case r of
            Inl e \<Rightarrow>
              if e = EOF then Returned (Inr s1, w1)
              else (case Close w1 s1 of
                      Blocked \<Rightarrow> Blocked
                    | Panicked \<Rightarrow> Panicked
                    | Returned (Some e2, w2, s2) \<Rightarrow>
                        Returned (Inl (Wrapf (''reading datum: while handling error '' @ [CHR 0x27]
                                   @ message e @ [CHR 0x27] @ '': encountered '') e2), w2)
                    | Returned (None, w2, s2) \<Rightarrow> Returned (Inl (Wrapf ''reading datum: '' e), w2))
          | Inr None \<Rightarrow> scan w1 s1
          | Inr (Some d) \<Rightarrow> scan w1 (s1\<lparr>data := Store (data s1) (key d) d\<rparr>)))"
  by pat_completeness auto
termination
proof -
  have progress: "inodes w1 = inodes w \<and> ino (dbfile s1) = ino (dbfile s)
       \<and> pos (dbfile s) < length (inodes w (ino (dbfile s)))
       \<and> pos (dbfile s) < pos (dbfile s1)"
    if "readDatum w s = Returned (Inr x, w1, s1)" for w s x w1 s1
    using that
    by (auto simp: readDatum_def os_Read_def os_Seek_def next_fault_def read_at_def Let_def metaSize_def
        split: prod.splits option.splits sum.splits if_splits list.splits)
  show ?thesis
    apply (relation "measure (\<lambda>(w, s). length (inodes w (ino (dbfile s))) - pos (dbfile s))")
      apply simp
     apply (auto dest!: progress)
    done
qed

declare scan.simps [simp del]

definition NewStorage :: "world \<Rightarrow> string \<Rightarrow> Config option \<Rightarrow> ((error + Storage) \<times> world) outcome" where
  "NewStorage w filename cfg =
     (let config = (case cfg of
                      None \<Rightarrow> \<lparr>VacuumBatch = 50000, FsyncBatch = 25000\<rparr>
                    | Some c \<Rightarrow> c)
      in case os_OpenFile w filename of
           (Inl e, w1) \<Rightarrow> Returned (Inl (Wrapf (''opening database file '' @ filename @ '': '') e), w1)
         | (Inr f, w1) \<Rightarrow>
             scan w1 \<lparr>name = filename, dbfile = f, writeCountSync = 0, writeCountVacuum = 0,
                      muFile = False, data = Map.empty, idx = 0, config = config\<rparr>)"

text \<open>
  \<^verbatim>\<open>Snapshot\<close>. Go leaves the order in which \<^verbatim>\<open>range\<close> visits a map open, so the keys
  come in a list \<open>order\<close> that the caller of the model chooses. The loop hands the
  pointer held by the map of the source store to \<^verbatim>\<open>snap.writeDatumToFile\<close>; the datum
  that comes back is written to the entry of the source.
\<close>

fun Snapshot_loop ::
  "world \<Rightarrow> Storage \<Rightarrow> Storage \<Rightarrow> byte list list \<Rightarrow> (error option \<times> world \<times> Storage \<times> Storage) outcome" where
  "Snapshot_loop w s snap [] = Returned (None, w, s, snap)"
| "Snapshot_loop w s snap (k # ks) =
     (case data s k of
        None \<Rightarrow> Snapshot_loop w s snap ks
      | Some v \<Rightarrow>
          if Deleted v \<noteq> 1
          then (case writeDatumToFile w snap v of
                  Blocked \<Rightarrow> Blocked
                | Panicked \<Rightarrow> Panicked
                | Returned ((err, v1), w1, snap1) \<Rightarrow>
                   (let s1 = s\<lparr>data := (data s)(k \<mapsto> v1)\<rparr>
                    in case err of
                         Some e \<Rightarrow>
                           Returned (Some (Wrapf (''setting '' @ [CHR 0x27] @ map (\<lambda>b. char_of (unat b)) k
                                       @ [CHR 0x27] @ '': '') e), w1, s1, snap1)
                       | None \<Rightarrow> Snapshot_loop w1 s1 snap1 ks))
          else Snapshot_loop w s snap ks)"

definition Snapshot ::
  "world \<Rightarrow> Storage \<Rightarrow> string \<Rightarrow> byte list list \<Rightarrow> (error option \<times> world \<times> Storage) outcome" where
  "Snapshot w s snapname order =
     (let (err, w1) = os_Remove w snapname
      in if (case err of None \<Rightarrow> False | Some e \<Rightarrow> \<not> is_ErrNotExist e)
         then Returned (err, w1, s)
         else (case NewStorage w1 snapname (Some \<lparr>VacuumBatch = 0, FsyncBatch = 0\<rparr>) of
                 Blocked \<Rightarrow> Blocked
               | Panicked \<Rightarrow> Panicked
               | Returned (Inl e, w2) \<Rightarrow> Returned (Some e, w2, s)
               | Returned (Inr snap, w2) \<Rightarrow>
                  (case Snapshot_loop w2 s snap order of
                     Blocked \<Rightarrow> Blocked
                   | Panicked \<Rightarrow> Panicked
                   | Returned (Some e, w3, s3, snap3) \<Rightarrow> Returned (Some e, w3, s3)
                   | Returned (None, w3, s3, snap3) \<Rightarrow>
                      (case Close w3 snap3 of
                         Blocked \<Rightarrow> Blocked
                       | Panicked \<Rightarrow> Panicked
                       | Returned (err4, w4, snap4) \<Rightarrow> Returned (err4, w4, s3)))))"

subsection \<open>Notions used to state the properties\<close>

text \<open>
  A datum is \<open>sized\<close> when its header carries the lengths of its key and of its value
  and the whole record, header included, has fewer than \<open>2 ^ 32\<close> bytes, so that
  \<^verbatim>\<open>Size\<close> does not wrap.
\<close>

definition sized :: "datum \<Rightarrow> bool" where
  "sized d \<longleftrightarrow>
     keySize (meta d) = of_nat (length (key d)) \<and>
     valSize (meta d) = of_nat (length (dvalue d)) \<and>
     9 + length (key d) + length (dvalue d) < 2 ^ 32"

text \<open>A file system with no files, in which no system call fails.\<close>

definition empty_world :: world where
  "empty_world = \<lparr>dir = Map.empty, inodes = (\<lambda>_. []), next_ino = 0, faults = [], journal = [],
       tempname = ''/tmp/bugfruit-cleanup1''\<rparr>"

text \<open>The bytes of the database file of a store.\<close>

definition content :: "world \<Rightarrow> Storage \<Rightarrow> byte list" where
  "content w s = inodes w (ino (dbfile s))"

text \<open>
  A client that applies \<^verbatim>\<open>Set\<close> and \<^verbatim>\<open>Delete\<close> operations one after the other and
  stops at the first one that returns an error.
\<close>

datatype op = OpSet "byte list" "byte list" | OpDelete "byte list"

fun op_key :: "op \<Rightarrow> byte list" where
  "op_key (OpSet k v) = k"
| "op_key (OpDelete k) = k"

fun apply_op :: "world \<Rightarrow> Storage \<Rightarrow> op \<Rightarrow> (error option \<times> world \<times> Storage) outcome" where
  "apply_op w s (OpSet k v) = Set w s k v"
| "apply_op w s (OpDelete k) = Delete w s k"

fun run_ops :: "world \<Rightarrow> Storage \<Rightarrow> op list \<Rightarrow> (error option \<times> world \<times> Storage) outcome" where
  "run_ops w s [] = Returned (None, w, s)"
| "run_ops w s (x # xs) =
     (case apply_op w s x of
        Blocked \<Rightarrow> Blocked
      | Panicked \<Rightarrow> Panicked
      | Returned (Some e, w1, s1) \<Rightarrow> Returned (Some e, w1, s1)
      | Returned (None, w1, s1) \<Rightarrow> run_ops w1 s1 xs)"

text \<open>
  The record that starts at offset \<open>off\<close> of a file: its header, key and value, when
  the file has all the bytes that the header announces.
\<close>

definition record_at :: "byte list \<Rightarrow> nat \<Rightarrow> (meta \<times> byte list \<times> byte list) option" where
  "record_at c off =
     (if length c < off + metaSize then None
      else (case meta_FromBytes (take metaSize (drop off c)) of
          Inl e \<Rightarrow> None
        | Inr m \<Rightarrow>
            (let ks = unat (keySize m); vs = unat (valSize m)
             in if length c < off + metaSize + ks + vs then None
                else Some (m, take ks (drop (off + metaSize) c),
                           take vs (drop (off + metaSize + ks) c)))))"

text \<open>
  The first invariant of the data model, for one key: if \<open>k\<close> is in the index, the file
  has a record at the offset of its descriptor, not tombstoned, with key \<open>k\<close>.
\<close>

definition index_entry_ok :: "world \<Rightarrow> Storage \<Rightarrow> byte list \<Rightarrow> bool" where
  "index_entry_ok w s k =
     (case data s k of
        None \<Rightarrow> True
      | Some d \<Rightarrow>
          (case record_at (content w s) (unat (datum.idx d)) of
             None \<Rightarrow> False
           | Some (m, k', v') \<Rightarrow> deleted m = 0 \<and> k' = k))"

text \<open>
  The counters after a write that does not reach \<^verbatim>\<open>VacuumBatch\<close>, and the condition
  that the next \<open>n\<close> writes stay below it.
\<close>

definition tick :: "Storage \<Rightarrow> Storage" where
  "tick s = s\<lparr>writeCountSync :=
                (if 0 < FsyncBatch (config s) \<and> FsyncBatch (config s) \<le> writeCountSync s + 1
                 then 0 else writeCountSync s + 1),
              writeCountVacuum := writeCountVacuum s + 1\<rparr>"

definition no_vacuum_within :: "Storage \<Rightarrow> nat \<Rightarrow> bool" where
  "no_vacuum_within s n \<longleftrightarrow>
     VacuumBatch (config s) = 0 \<or> unat (writeCountVacuum s) + n < unat (VacuumBatch (config s))"

text \<open>A store that can be used: no fault is scheduled, its file is open, its mutex free.\<close>

definition ready :: "world \<Rightarrow> Storage \<Rightarrow> bool" where
  "ready w s \<longleftrightarrow> faults w = [] \<and> \<not> closed (dbfile s) \<and> \<not> muFile s"

text \<open>The bytes of a record on disk: header, key, value.\<close>

definition record_bytes :: "datum \<Rightarrow> byte list" where
  "record_bytes d = meta_Bytes (meta d) @ key d @ dvalue d"

text \<open>The file after the tombstone byte of a descriptor, if there is one, is written.\<close>

definition tombstoned :: "byte list \<Rightarrow> datum option \<Rightarrow> byte list" where
  "tombstoned c od = (case od of None \<Rightarrow> c | Some d \<Rightarrow> write_at c (unat (datum.idx d) + 8) [1])"

text \<open>
  What the claims say \<^verbatim>\<open>Get\<close> returns after a sequence of operations: the last operation
  on the key decides.
\<close>

definition last_on :: "op list \<Rightarrow> byte list \<Rightarrow> op option" where
  "last_on ops k = (case filter (\<lambda>x. op_key x = k) ops of [] \<Rightarrow> None | y # ys \<Rightarrow> Some (last (y # ys)))"

definition expected_Get :: "op list \<Rightarrow> byte list \<Rightarrow> byte list \<times> bool" where
  "expected_Get ops k =
     (case last_on ops k of
        Some (OpSet k' v) \<Rightarrow> (v, True)
      | Some (OpDelete k') \<Rightarrow> ([], False)
      | None \<Rightarrow> ([], False))"

text \<open>An operation whose record, if it writes one, fits 32 bits.\<close>

fun op_fits :: "op \<Rightarrow> bool" where
  "op_fits (OpSet k v) \<longleftrightarrow> 9 + length k + length v < 2 ^ 32"
| "op_fits (OpDelete k) \<longleftrightarrow> True"

text \<open>
  The writes that a sequence of operations makes, counted as \<^verbatim>\<open>incAndSync\<close> counts them,
  when \<open>ks\<close> are the keys of the index before the sequence: \<^verbatim>\<open>Set\<close> appends a record,
  after a tombstone byte if the key is in the index; \<^verbatim>\<open>Delete\<close> writes a tombstone byte if
  the key is in the index, and nothing otherwise.
\<close>

fun op_writes :: "byte list list \<Rightarrow> op \<Rightarrow> nat" where
  "op_writes ks (OpSet k v) = (if k \<in> set ks then 2 else 1)"
| "op_writes ks (OpDelete k) = (if k \<in> set ks then 1 else 0)"

fun keys_after :: "byte list list \<Rightarrow> op \<Rightarrow> byte list list" where
  "keys_after ks (OpSet k v) = k # ks"
| "keys_after ks (OpDelete k) = removeAll k ks"

fun writes :: "op list \<Rightarrow> byte list list \<Rightarrow> nat" where
  "writes [] ks = 0"
| "writes (x # xs) ks = op_writes ks x + writes xs (keys_after ks x)"

text \<open>The configuration that \<^verbatim>\<open>NewStorage\<close> installs.\<close>

definition config_of :: "Config option \<Rightarrow> Config" where
  "config_of cfg = (case cfg of None \<Rightarrow> \<lparr>VacuumBatch = 50000, FsyncBatch = 25000\<rparr> | Some c \<Rightarrow> c)"

text \<open>The path names no file, or a file of no bytes.\<close>

definition empty_at :: "world \<Rightarrow> string \<Rightarrow> bool" where
  "empty_at w path = (case dir w path of None \<Rightarrow> True | Some i \<Rightarrow> inodes w i = [])"


definition store_one_key :: Storage where
  "store_one_key = \<lparr>name = ''db'', dbfile = \<lparr>fname = ''db'', ino = 0, pos = 11, closed = False\<rparr>,
              writeCountSync = 1, writeCountVacuum = 1, muFile = False,
              data = [[1] \<mapsto> \<lparr>meta = \<lparr>keySize = 1, valSize = 1, deleted = 0\<rparr>, key = [1], dvalue = [7], idx = 0\<rparr>],
              idx = 0, config = \<lparr>VacuumBatch = 0, FsyncBatch = 0\<rparr>\<rparr>"

text \<open>
  The layout of a file: the records it holds, in order. A record is live when its
  deleted byte is not 1, which is the test of \<^verbatim>\<open>readDatum\<close>. \<open>index_from off ds m\<close> is
  the index that results from installing the live records of \<open>ds\<close>, which start at
  offset \<open>off\<close>, into \<open>m\<close> in file order: later records replace earlier ones.
\<close>

definition live :: "datum \<Rightarrow> bool" where
  "live d \<longleftrightarrow> deleted (meta d) \<noteq> 1"

definition encode :: "datum list \<Rightarrow> byte list" where
  "encode ds = concat (map record_bytes ds)"

fun index_from :: "nat \<Rightarrow> datum list \<Rightarrow> muMap \<Rightarrow> muMap" where
  "index_from off [] m = m"
| "index_from off (d # ds) m =
     index_from (off + length (record_bytes d)) ds
       (if live d then m(key d \<mapsto> d\<lparr>datum.idx := of_nat off\<rparr>) else m)"

text \<open>A file system whose only file, \<^verbatim>\<open>db\<close>, holds the given bytes; no call fails.\<close>

definition world_with_file :: "byte list \<Rightarrow> world" where
  "world_with_file c = \<lparr>dir = [''db'' \<mapsto> 0], inodes = (\<lambda>_. c), next_ino = 1, faults = [], journal = [],
       tempname = ''/tmp/bugfruit-cleanup1''\<rparr>"

text \<open>The keys of the live records of a layout, in file order.\<close>

definition live_keys :: "datum list \<Rightarrow> byte list list" where
  "live_keys ds = map key (filter live ds)"

text \<open>
  The file of a store is a layout \<open>ds\<close>: it holds exactly these records, each
  well-formed, in fewer than \<open>2 ^ 32\<close> bytes; no two live records have the same key;
  and the index is the one that a scan of these records builds, offsets included.
\<close>

definition layout :: "world \<Rightarrow> Storage \<Rightarrow> datum list \<Rightarrow> bool" where
  "layout w s ds \<longleftrightarrow>
     content w s = encode ds \<and> (\<forall>d\<in>set ds. sized d) \<and> length (encode ds) < 2 ^ 32 \<and>
     distinct (live_keys ds) \<and> data s = index_from 0 ds Map.empty"

text \<open>The bytes an operation appends to the file.\<close>

fun op_bytes :: "op \<Rightarrow> nat" where
  "op_bytes (OpSet k v) = 9 + length k + length v"
| "op_bytes (OpDelete k) = 0"

text \<open>The path names a file with these bytes; a path that names no file counts as empty.\<close>

definition holds_at :: "world \<Rightarrow> string \<Rightarrow> byte list \<Rightarrow> bool" where
  "holds_at w path c = (case dir w path of None \<Rightarrow> c = [] | Some i \<Rightarrow> inodes w i = c)"

section \<open>Properties\<close>

subsection \<open>The record codec\<close>

lemma le_Uint32_PutUint32: "le_Uint32 (le_PutUint32 v) = v"
  unfolding le_Uint32_def le_PutUint32_def
  apply (rule bit_word_eqI)
  apply (auto simp: bit_simps)
  subgoal for n by (cases "24 \<le> n") auto
  done

lemma length_le_PutUint32: "length (le_PutUint32 v) = 4"
  by (simp add: le_PutUint32_def)

lemma length_meta_Bytes: "length (meta_Bytes m) = 9"
  by (simp add: meta_Bytes_def length_le_PutUint32)

lemma meta_FromBytes_Bytes: "meta_FromBytes (meta_Bytes m) = Inr m"
  by (simp add: meta_FromBytes_def meta_Bytes_def metaSize_def length_le_PutUint32
      le_Uint32_PutUint32 nth_append)

lemma unat_of_nat32: "n < 2 ^ 32 \<Longrightarrow> unat (of_nat n :: uint32) = n"
  by (simp add: unat_of_nat)

lemma sizes_fit:
  assumes "9 + length k + length v < 2 ^ 32"
  shows "unat (of_nat (length k) :: uint32) = length k"
    and "unat (of_nat (length v) :: uint32) = length v"
    and "unat (of_nat (length k) + of_nat (length v) :: uint32) = length k + length v"
    and "unat (9 + of_nat (length k) :: uint32) = 9 + length k"
    and "unat (of_nat (length k) + of_nat (length v) + 9 :: uint32) = length k + length v + 9"
proof -
  show "unat (of_nat (length k) :: uint32) = length k"
    using assms by (intro unat_of_nat32) simp
  show "unat (of_nat (length v) :: uint32) = length v"
    using assms by (intro unat_of_nat32) simp
  have "unat (of_nat (length k + length v) :: uint32) = length k + length v"
    using assms by (intro unat_of_nat32) simp
  then show "unat (of_nat (length k) + of_nat (length v) :: uint32) = length k + length v"
    by simp
  have "unat (of_nat (9 + length k) :: uint32) = 9 + length k"
    using assms by (intro unat_of_nat32) simp
  then show "unat (9 + of_nat (length k) :: uint32) = 9 + length k"
    by simp
  have "unat (of_nat (length k + length v + 9) :: uint32) = length k + length v + 9"
    using assms by (intro unat_of_nat32) simp
  then show "unat (of_nat (length k) + of_nat (length v) + 9 :: uint32) = length k + length v + 9"
    by simp
qed

lemma datum_Set_new:
  "datum_Set newDatum k v =
     \<lparr>meta = \<lparr>keySize = of_nat (length k), valSize = of_nat (length v), deleted = 0\<rparr>,
      key = k, dvalue = v, idx = 0\<rparr>"
  by (cases k; cases v) (simp_all add: datum_Set_def newDatum_def Let_def)

lemma datum_Bytes_sized:
  assumes "sized d"
  shows "datum_Bytes d = Some (meta_Bytes (meta d) @ key d @ dvalue d)"
  using assms sizes_fit [of "key d" "dvalue d"]
  by (simp add: sized_def datum_Bytes_def Size_def metaSize_def Let_def copy_into_def
      length_meta_Bytes)

lemma KeyValFromBytes_sized:
  assumes "sized d"
  shows "KeyValFromBytes \<lparr>meta = meta d, key = k0, dvalue = v0, idx = i\<rparr> (key d @ dvalue d)
         = Some (Inr (d\<lparr>datum.idx := i\<rparr>))"
  using assms sizes_fit [of "key d" "dvalue d"]
  by (simp add: sized_def KeyValFromBytes_def Let_def)

lemma sized_datum_Set:
  "9 + length k + length v < 2 ^ 32 \<Longrightarrow> sized (datum_Set newDatum k v)"
  by (simp add: sized_def datum_Set_new)


subsection \<open>System calls\<close>

lemma next_fault_nil [simp]: "faults w = [] \<Longrightarrow> next_fault w = (False, w)"
  by (simp add: next_fault_def)

lemma write_at_end [simp]: "write_at c (length c) b = c @ b"
  by (simp add: write_at_def)

lemma length_write_at: "length (write_at c p b) = max (length c) (p + length b)"
  by (auto simp: write_at_def)


lemma os_Seek_ok:
  "\<not> closed f \<Longrightarrow> faults w = [] \<Longrightarrow>
   os_Seek w f off wh =
     (let p = (case wh of SeekStart \<Rightarrow> off | SeekCurrent \<Rightarrow> pos f + off
                        | SeekEnd \<Rightarrow> length (inodes w (ino f)) + off)
      in (p, None, w, f\<lparr>pos := p\<rparr>))"
  by (simp add: os_Seek_def)

lemma os_Write_ok:
  "\<not> closed f \<Longrightarrow> faults w = [] \<Longrightarrow> b \<noteq> [] \<Longrightarrow>
   os_Write w f b =
     (length b, None,
      w\<lparr>inodes := (inodes w)(ino f := write_at (inodes w (ino f)) (pos f) b),
        journal := journal w @ [(ino f, pos f, b)]\<rparr>,
      f\<lparr>pos := pos f + length b\<rparr>)"
  by (simp add: os_Write_def)

lemma os_Sync_ok: "\<not> closed f \<Longrightarrow> faults w = [] \<Longrightarrow> os_Sync w f = (None, w)"
  by (simp add: os_Sync_def)


subsection \<open>The mutex and the counters\<close>




subsection \<open>Writes on a ready store\<close>

lemma tick_fields [simp]:
  "data (tick s) = data s" "dbfile (tick s) = dbfile s" "muFile (tick s) = muFile s"
  "config (tick s) = config s" "name (tick s) = name s" "Storage.idx (tick s) = Storage.idx s"
  "writeCountVacuum (tick s) = writeCountVacuum s + 1"
  by (simp_all add: tick_def)

lemma tick_update [simp]:
  "tick (s\<lparr>dbfile := f\<rparr>) = (tick s)\<lparr>dbfile := f\<rparr>"
  "tick (s\<lparr>data := m\<rparr>) = (tick s)\<lparr>data := m\<rparr>"
  "tick (s\<lparr>muFile := b\<rparr>) = (tick s)\<lparr>muFile := b\<rparr>"
  by (simp_all add: tick_def)

lemma no_trigger:
  assumes "no_vacuum_within s (Suc n)"
  shows "\<not> (0 < VacuumBatch (config s) \<and> VacuumBatch (config s) \<le> writeCountVacuum s + 1)"
    and "no_vacuum_within (tick s) n"
proof -
  show "\<not> (0 < VacuumBatch (config s) \<and> VacuumBatch (config s) \<le> writeCountVacuum s + 1)"
  proof (cases "VacuumBatch (config s) = 0")
    case True then show ?thesis by simp
  next
    case False
    with assms have lt: "unat (writeCountVacuum s) + Suc n < unat (VacuumBatch (config s))"
      by (simp add: no_vacuum_within_def)
    have "unat (VacuumBatch (config s)) < 2 ^ 64" using unsigned_less [of "VacuumBatch (config s)"] by simp
    with lt have "unat (writeCountVacuum s) + 1 < 2 ^ 64" by simp
    then have "unat (writeCountVacuum s + 1) = unat (writeCountVacuum s) + 1"
      by (simp add: unat_word_ariths)
    with lt have "unat (writeCountVacuum s + 1) < unat (VacuumBatch (config s))" by simp
    then show ?thesis by (simp add: word_le_nat_alt)
  qed
  show "no_vacuum_within (tick s) n"
  proof (cases "VacuumBatch (config s) = 0")
    case True then show ?thesis by (simp add: no_vacuum_within_def)
  next
    case False
    with assms have lt: "unat (writeCountVacuum s) + Suc n < unat (VacuumBatch (config s))"
      by (simp add: no_vacuum_within_def)
    have "unat (VacuumBatch (config s)) < 2 ^ 64" using unsigned_less [of "VacuumBatch (config s)"] by simp
    with lt have "unat (writeCountVacuum s) + 1 < 2 ^ 64" by simp
    then have "unat (writeCountVacuum s + 1) = unat (writeCountVacuum s) + 1"
      by (simp add: unat_word_ariths)
    with lt show ?thesis by (simp add: no_vacuum_within_def)
  qed
qed

lemma no_vacuum_within_mono: "no_vacuum_within s n \<Longrightarrow> m \<le> n \<Longrightarrow> no_vacuum_within s m"
  by (auto simp: no_vacuum_within_def)

lemma incAndSync_ok:
  assumes "faults w = []" "\<not> closed (dbfile s)" "no_vacuum_within s (Suc n)"
  shows "incAndSync w s = Returned (None, w, tick s)"
  using no_trigger(1) [OF assms(3)] assms(1,2)
  by (auto simp: incAndSync_def Let_def tick_def os_Sync_ok)

lemma no_vacuum_within_update [simp]:
  "no_vacuum_within (s\<lparr>dbfile := f\<rparr>) n = no_vacuum_within s n"
  "no_vacuum_within (s\<lparr>muFile := b\<rparr>) n = no_vacuum_within s n"
  "no_vacuum_within (s\<lparr>data := m\<rparr>) n = no_vacuum_within s n"
  by (simp_all add: no_vacuum_within_def)

lemma tick_muFile_False: "\<not> muFile s \<Longrightarrow> (tick s)\<lparr>muFile := False\<rparr> = tick s"
  by (simp add: tick_def)

lemma writeDeletedByte_ok:
  assumes "ready w s" "no_vacuum_within s (Suc n)"
  shows "writeDeletedByte w s d =
     Returned (None,
       w\<lparr>inodes := (inodes w)(ino (dbfile s) := write_at (content w s) (unat (datum.idx d) + 8) [Deleted d]),
         journal := journal w @ [(ino (dbfile s), unat (datum.idx d) + 8, [Deleted d])]\<rparr>,
       tick (s\<lparr>dbfile := (dbfile s)\<lparr>pos := unat (datum.idx d) + 9\<rparr>\<rparr>))"
  using assms
  by (simp add: writeDeletedByte_def with_muFile_def ready_def os_Seek_ok os_Write_ok Let_def
      metaSize_def content_def incAndSync_ok [where n = n] tick_muFile_False)
    (simp add: add.commute)

lemma writeDatumToFile_ok:
  assumes "ready w s" "no_vacuum_within s (Suc n)" "sized d"
  shows "writeDatumToFile w s d =
     Returned ((None, d\<lparr>datum.idx := of_nat (length (content w s))\<rparr>),
       w\<lparr>inodes := (inodes w)(ino (dbfile s) := content w s @ meta_Bytes (meta d) @ key d @ dvalue d),
         journal := journal w @ [(ino (dbfile s), length (content w s), meta_Bytes (meta d) @ key d @ dvalue d)]\<rparr>,
       tick (s\<lparr>dbfile := (dbfile s)\<lparr>pos := length (content w s) + (9 + length (key d) + length (dvalue d))\<rparr>\<rparr>))"
proof -
  let ?d1 = "d\<lparr>datum.idx := of_nat (length (content w s))\<rparr>"
  have s1: "sized ?d1" using assms(3) by (simp add: sized_def)
  have b: "datum_Bytes ?d1 = Some (meta_Bytes (meta d) @ key d @ dvalue d)"
    using datum_Bytes_sized [OF s1] by simp
  have sz: "unat (Size ?d1) = 9 + length (key d) + length (dvalue d)"
    using assms(3) sizes_fit(5) [of "key d" "dvalue d"]
    by (simp add: sized_def Size_def metaSize_def)
  have ne: "meta_Bytes (meta d) @ key d @ dvalue d \<noteq> []"
    using length_meta_Bytes [of "meta d"] by auto
  show ?thesis
    using assms(1,2) b sz ne
    by (simp add: writeDatumToFile_def with_muFile_def ready_def os_Seek_ok os_Write_ok Let_def
        content_def incAndSync_ok [where n = n] tick_muFile_False length_meta_Bytes)
qed

lemma length_record_bytes: "length (record_bytes d) = 9 + length (key d) + length (dvalue d)"
  by (simp add: record_bytes_def length_meta_Bytes)

lemma ready_tick [simp]: "ready w (tick s) = ready w s"
  by (simp add: ready_def)

lemma appendDatum_ok:
  assumes "ready w s" "no_vacuum_within s (Suc n)" "9 + length k + length v < 2 ^ 32"
  shows "appendDatum w s k v =
     Returned (None,
       w\<lparr>inodes := (inodes w)(ino (dbfile s) := content w s @ record_bytes (datum_Set newDatum k v)),
         journal := journal w @ [(ino (dbfile s), length (content w s), record_bytes (datum_Set newDatum k v))]\<rparr>,
       tick (s\<lparr>dbfile := (dbfile s)\<lparr>pos := length (content w s) + (9 + length k + length v)\<rparr>,
               data := (data s)(k \<mapsto> (datum_Set newDatum k v)\<lparr>datum.idx := of_nat (length (content w s))\<rparr>)\<rparr>))"
proof -
  let ?d = "datum_Set newDatum k v"
  let ?s1 = "s\<lparr>data := (data s)(k \<mapsto> ?d)\<rparr>"
  have sz: "sized ?d" using assms(3) by (rule sized_datum_Set)
  have r: "ready w ?s1" using assms(1) by (simp add: ready_def)
  have nv: "no_vacuum_within ?s1 (Suc n)" using assms(2) by simp
  have kv: "key ?d = k" "dvalue ?d = v" by (simp_all add: datum_Set_new)
  show ?thesis
    unfolding appendDatum_def Let_def
    by (simp add: writeDatumToFile_ok [OF r nv sz] record_bytes_def content_def kv Store_def)
qed

lemma Set_fresh:
  "data s k = None \<Longrightarrow> Set w s k v = appendDatum w s k v"
  by (simp add: Set_def Load_def)

lemma Delete_absent:
  "data s k = None \<Longrightarrow> Delete w s k = Returned (None, w, s)"
  by (simp add: Delete_def LoadAndDelete_def)

lemma Delete_existing:
  assumes "ready w s" "no_vacuum_within s (Suc n)" "data s k = Some d"
  shows "Delete w s k =
     Returned (None,
       w\<lparr>inodes := (inodes w)(ino (dbfile s) := write_at (content w s) (unat (datum.idx d) + 8) [1]),
         journal := journal w @ [(ino (dbfile s), unat (datum.idx d) + 8, [1])]\<rparr>,
       tick (s\<lparr>dbfile := (dbfile s)\<lparr>pos := unat (datum.idx d) + 9\<rparr>,
               data := (data s)(k := None)\<rparr>))"
proof -
  let ?s0 = "s\<lparr>data := (data s)(k := None)\<rparr>"
  have r: "ready w ?s0" using assms(1) by (simp add: ready_def)
  have nv: "no_vacuum_within ?s0 (Suc n)" using assms(2) by simp
  show ?thesis
    using assms(3)
    by (simp add: Delete_def LoadAndDelete_def reclaimSpace_def Let_def
        writeDeletedByte_ok [OF r nv] MarkDeleted_def Deleted_def content_def)
qed

subsection \<open>One operation on a ready store\<close>

lemma tick_other [simp]:
  "writeCountSync (tick s) = (if 0 < FsyncBatch (config s) \<and> FsyncBatch (config s) \<le> writeCountSync s + 1
                 then 0 else writeCountSync s + 1)"
  by (simp add: tick_def)

lemma reclaim_step:
  assumes "ready w s" "no_vacuum_within s (Suc n)"
  shows "\<exists>w1 s1. reclaimSpace w s d = Returned ((None, MarkDeleted d), w1, s1)
     \<and> ready w1 s1 \<and> no_vacuum_within s1 n
     \<and> config s1 = config s \<and> ino (dbfile s1) = ino (dbfile s) \<and> dir w1 = dir w
     \<and> next_ino w1 = next_ino w
     \<and> data s1 = data s
     \<and> inodes w1 = (inodes w)(ino (dbfile s) := write_at (content w s) (unat (datum.idx d) + 8) [1])
     \<and> journal w1 = journal w @ [(ino (dbfile s), unat (datum.idx d) + 8, [1])]"
  using assms(1) no_trigger(2) [OF assms(2)]
  by (simp add: reclaimSpace_def Let_def writeDeletedByte_ok [OF assms(1,2)] MarkDeleted_def
      Deleted_def ready_def)

lemma appendDatum_step:
  assumes "ready w s" "no_vacuum_within s (Suc n)" "9 + length k + length v < 2 ^ 32"
  shows "\<exists>w1 s1. appendDatum w s k v = Returned (None, w1, s1)
     \<and> ready w1 s1 \<and> no_vacuum_within s1 n
     \<and> config s1 = config s \<and> ino (dbfile s1) = ino (dbfile s) \<and> dir w1 = dir w
     \<and> next_ino w1 = next_ino w
     \<and> data s1 = (data s)(k \<mapsto> (datum_Set newDatum k v)\<lparr>datum.idx := of_nat (length (content w s))\<rparr>)
     \<and> inodes w1 = (inodes w)(ino (dbfile s) := content w s @ record_bytes (datum_Set newDatum k v))
     \<and> journal w1 = journal w @ [(ino (dbfile s), length (content w s), record_bytes (datum_Set newDatum k v))]"
  using assms(1) no_trigger(2) [OF assms(2)]
  by (simp add: appendDatum_ok [OF assms] ready_def)

lemma Set_step:
  assumes "ready w s" "no_vacuum_within s ((if data s k = None then 1 else 2) + n)"
    and "9 + length k + length v < 2 ^ 32"
  shows "\<exists>w1 s1. Set w s k v = Returned (None, w1, s1) \<and> ready w1 s1 \<and> no_vacuum_within s1 n
     \<and> config s1 = config s \<and> ino (dbfile s1) = ino (dbfile s) \<and> dir w1 = dir w
     \<and> next_ino w1 = next_ino w
     \<and> data s1 = (data s)(k \<mapsto> (datum_Set newDatum k v)\<lparr>datum.idx := of_nat (length (tombstoned (content w s) (data s k)))\<rparr>)
     \<and> inodes w1 = (inodes w)(ino (dbfile s) := tombstoned (content w s) (data s k) @ record_bytes (datum_Set newDatum k v))
     \<and> journal w1 = journal w
          @ (case data s k of None \<Rightarrow> [] | Some d \<Rightarrow> [(ino (dbfile s), unat (datum.idx d) + 8, [1])])
          @ [(ino (dbfile s), length (tombstoned (content w s) (data s k)), record_bytes (datum_Set newDatum k v))]"
proof (cases "data s k")
  case None
  have nv: "no_vacuum_within s (Suc n)" using assms(2) None by simp
  from appendDatum_step [OF assms(1) nv assms(3)]
  show ?thesis
    by (simp add: Set_fresh [OF None] None tombstoned_def)
next
  case (Some d)
  have nv: "no_vacuum_within s (Suc (Suc n))" using assms(2) Some by simp
  from reclaim_step [OF assms(1) nv, of d] obtain w1 s1 where
    a: "reclaimSpace w s d = Returned ((None, MarkDeleted d), w1, s1)"
    and r1: "ready w1 s1" and nv1: "no_vacuum_within s1 (Suc n)"
    and f1: "config s1 = config s" "ino (dbfile s1) = ino (dbfile s)" "dir w1 = dir w"
      "next_ino w1 = next_ino w" "data s1 = data s"
      "inodes w1 = (inodes w)(ino (dbfile s) := write_at (content w s) (unat (datum.idx d) + 8) [1])"
      "journal w1 = journal w @ [(ino (dbfile s), unat (datum.idx d) + 8, [1])]"
    by blast
  let ?s2 = "s1\<lparr>data := (data s1)(k \<mapsto> MarkDeleted d)\<rparr>"
  have r2: "ready w1 ?s2" using r1 by (simp add: ready_def)
  have nv2: "no_vacuum_within ?s2 (Suc n)" using nv1 by simp
  have c2: "content w1 (s1\<lparr>data := m\<rparr>) = write_at (content w s) (unat (datum.idx d) + 8) [1]" for m
    by (simp add: content_def f1)
  have e: "Set w s k v = appendDatum w1 ?s2 k v"
    by (simp add: Set_def Load_def Some a Let_def)
  from appendDatum_step [OF r2 nv2 assms(3)]
  show ?thesis
    by (simp add: e c2 f1 Some tombstoned_def)
qed

lemma Delete_step:
  assumes "ready w s" "no_vacuum_within s ((if data s k = None then 0 else 1) + n)"
  shows "\<exists>w1 s1. Delete w s k = Returned (None, w1, s1) \<and> ready w1 s1 \<and> no_vacuum_within s1 n
     \<and> config s1 = config s \<and> ino (dbfile s1) = ino (dbfile s) \<and> dir w1 = dir w
     \<and> next_ino w1 = next_ino w
     \<and> data s1 = (data s)(k := None)
     \<and> inodes w1 = (inodes w)(ino (dbfile s) := tombstoned (content w s) (data s k))
     \<and> journal w1 = journal w
          @ (case data s k of None \<Rightarrow> [] | Some d \<Rightarrow> [(ino (dbfile s), unat (datum.idx d) + 8, [1])])"
proof (cases "data s k")
  case None
  have nv: "no_vacuum_within s n" using assms(2) None by simp
  have e: "(data s)(k := None) = data s" using None by (intro fun_upd_idem) simp
  show ?thesis
    using assms(1) nv by (simp add: Delete_absent [OF None] None tombstoned_def e content_def)
next
  case (Some d)
  have nv: "no_vacuum_within s (Suc n)" using assms(2) Some by simp
  have nv': "no_vacuum_within (tick s) n" using no_trigger(2) [OF nv] .
  show ?thesis
    using assms(1) nv'
    by (simp add: Delete_existing [OF assms(1) nv Some] Some tombstoned_def ready_def)
qed

lemma readDatum_eof:
  assumes "faults w = []" "\<not> closed (dbfile s)" "length (content w s) \<le> pos (dbfile s)"
  shows "readDatum w s = Returned (Inl EOF, w, s)"
  using assms
  by (simp add: readDatum_def os_Read_def read_at_def metaSize_def content_def)

lemma scan_eof:
  assumes "faults w = []" "\<not> closed (dbfile s)" "length (content w s) \<le> pos (dbfile s)"
  shows "scan w s = Returned (Inr s, w)"
  by (subst scan.simps) (simp add: readDatum_eof [OF assms])

lemma NewStorage_empty:
  assumes "faults w = []" "empty_at w path"
  shows "\<exists>s w1. NewStorage w path cfg = Returned (Inr s, w1) \<and> ready w1 s
     \<and> data s = Map.empty \<and> config s = config_of cfg \<and> writeCountVacuum s = 0
     \<and> content w1 s = [] \<and> dir w1 path = Some (ino (dbfile s)) \<and> name s = path"
proof (cases "dir w path")
  case None
  let ?w1 = "w\<lparr>dir := (dir w)(path \<mapsto> next_ino w), inodes := (inodes w)(next_ino w := []),
                 next_ino := Suc (next_ino w)\<rparr>"
  let ?s = "\<lparr>name = path, dbfile = \<lparr>fname = path, ino = next_ino w, pos = 0, closed = False\<rparr>,
             writeCountSync = 0, writeCountVacuum = 0, muFile = False, data = Map.empty, idx = 0,
             config = config_of cfg\<rparr>"
  have "scan ?w1 ?s = Returned (Inr ?s, ?w1)"
    using assms(1) by (intro scan_eof) (simp_all add: content_def)
  then show ?thesis
    using assms(1) None
    by (simp add: NewStorage_def os_OpenFile_def config_of_def ready_def content_def)
next
  case (Some i)
  let ?s = "\<lparr>name = path, dbfile = \<lparr>fname = path, ino = i, pos = 0, closed = False\<rparr>,
             writeCountSync = 0, writeCountVacuum = 0, muFile = False, data = Map.empty, idx = 0,
             config = config_of cfg\<rparr>"
  have e: "inodes w i = []" using assms(2) Some by (simp add: empty_at_def)
  have "scan w ?s = Returned (Inr ?s, w)"
    using assms(1) e by (intro scan_eof) (simp_all add: content_def)
  then show ?thesis
    using assms(1) Some e
    by (simp add: NewStorage_def os_OpenFile_def config_of_def ready_def content_def)
qed

lemma last_on_Cons:
  "last_on (x # xs) k = (case last_on xs k of Some y \<Rightarrow> Some y
      | None \<Rightarrow> if op_key x = k then Some x else None)"
  by (auto simp: last_on_def split: list.splits)

lemma Get_data: "Get s k = (case data s k of None \<Rightarrow> ([], False) | Some d \<Rightarrow> (dvalue d, True))"
  by (simp add: Get_def Load_def)

lemma writes_cong: "set ks = set ks' \<Longrightarrow> writes ops ks = writes ops ks'"
proof (induction ops arbitrary: ks ks')
  case Nil
  then show ?case by simp
next
  case (Cons x xs)
  have "set (keys_after ks x) = set (keys_after ks' x)" using Cons.prems by (cases x) simp_all
  then have "writes xs (keys_after ks x) = writes xs (keys_after ks' x)" by (rule Cons.IH)
  moreover have "op_writes ks x = op_writes ks' x" using Cons.prems by (cases x) simp_all
  ultimately show ?case by simp
qed

lemma apply_op_step:
  assumes "ready w s" "no_vacuum_within s (op_writes ks x + n)" "op_fits x" "set ks = dom (data s)"
  shows "\<exists>w1 s1. apply_op w s x = Returned (None, w1, s1) \<and> ready w1 s1 \<and> no_vacuum_within s1 n
     \<and> set (keys_after ks x) = dom (data s1)
     \<and> (\<forall>k. Get s1 k = (if k = op_key x
                          then (case x of OpSet k' v \<Rightarrow> (v, True) | OpDelete k' \<Rightarrow> ([], False))
                          else Get s k))"
proof (cases x)
  case (OpSet k v)
  from assms(3) OpSet have fit: "9 + length k + length v < 2 ^ 32" by simp
  have nv: "no_vacuum_within s ((if data s k = None then 1 else 2) + n)"
    using assms(2,4) OpSet by (auto simp: domIff)
  from Set_step [OF assms(1) nv fit] assms(4) show ?thesis
    by (auto simp: OpSet Get_data datum_Set_new)
next
  case (OpDelete k)
  have nv: "no_vacuum_within s ((if data s k = None then 0 else 1) + n)"
    using assms(2,4) OpDelete by (auto simp: domIff)
  from Delete_step [OF assms(1) nv] assms(4) show ?thesis
    by (auto simp: OpDelete Get_data)
qed

lemma run_ops_ok:
  assumes "ready w s" "\<forall>x\<in>set ops. op_fits x" "set ks = dom (data s)"
    and "no_vacuum_within s (writes ops ks)"
  shows "\<exists>w' s'. run_ops w s ops = Returned (None, w', s') \<and> ready w' s'
     \<and> (\<forall>k. Get s' k = (case last_on ops k of
                            Some (OpSet k' v) \<Rightarrow> (v, True)
                          | Some (OpDelete k') \<Rightarrow> ([], False)
                          | None \<Rightarrow> Get s k))"
  using assms
proof (induction ops arbitrary: w s ks)
  case Nil
  then show ?case by (simp add: last_on_def)
next
  case (Cons x xs)
  have nv: "no_vacuum_within s (op_writes ks x + writes xs (keys_after ks x))"
    using Cons.prems(4) by simp
  have fx: "op_fits x" using Cons.prems(2) by simp
  from apply_op_step [OF Cons.prems(1) nv fx Cons.prems(3)] obtain w1 s1 where
    a: "apply_op w s x = Returned (None, w1, s1)" and r1: "ready w1 s1"
    and nv1: "no_vacuum_within s1 (writes xs (keys_after ks x))"
    and k1: "set (keys_after ks x) = dom (data s1)"
    and g1: "\<And>k. Get s1 k = (if k = op_key x
                          then (case x of OpSet k' v \<Rightarrow> (v, True) | OpDelete k' \<Rightarrow> ([], False))
                          else Get s k)"
    by blast
  have fxs: "\<forall>y\<in>set xs. op_fits y" using Cons.prems(2) by simp
  from Cons.IH [OF r1 fxs k1 nv1] obtain w' s' where
    b: "run_ops w1 s1 xs = Returned (None, w', s')" and r': "ready w' s'"
    and g': "\<And>k. Get s' k = (case last_on xs k of
                            Some (OpSet k' v) \<Rightarrow> (v, True)
                          | Some (OpDelete k') \<Rightarrow> ([], False)
                          | None \<Rightarrow> Get s1 k)"
    by blast
  have "Get s' k = (case last_on (x # xs) k of
                            Some (OpSet k' v) \<Rightarrow> (v, True)
                          | Some (OpDelete k') \<Rightarrow> ([], False)
                          | None \<Rightarrow> Get s k)" for k
    by (cases x) (auto simp: g' g1 last_on_Cons split: option.splits op.splits)
  then show ?case using a b r' by simp
qed


subsection \<open>Writes under any schedule of faults\<close>








subsection \<open>Reading records back\<close>

lemma read_header:
  "read_at (pre @ record_bytes d @ post) (length pre) 9 = meta_Bytes (meta d)"
  by (simp add: read_at_def record_bytes_def length_meta_Bytes)

lemma read_body:
  "read_at (pre @ record_bytes d @ post) (length pre + 9) (length (key d) + length (dvalue d))
     = key d @ dvalue d"
  by (simp add: read_at_def record_bytes_def length_meta_Bytes)

lemma sized_total:
  assumes "sized d"
  shows "unat (keySize (meta d) + valSize (meta d)) = length (key d) + length (dvalue d)"
    and "keySize (meta d) + valSize (meta d) = of_nat (length (key d) + length (dvalue d))"
  using assms sizes_fit(3) [of "key d" "dvalue d"] by (simp_all add: sized_def)

lemma readDatum_record:
  assumes "faults w = []" "\<not> closed (dbfile s)" "sized d"
    and "content w s = pre @ record_bytes d @ post" "pos (dbfile s) = length pre"
  shows "readDatum w s =
     Returned (if live d then Inr (Some (d\<lparr>datum.idx := Storage.idx s\<rparr>)) else Inr None, w,
       s\<lparr>dbfile := (dbfile s)\<lparr>pos := length pre + length (record_bytes d)\<rparr>,
         idx := Storage.idx s + Size d\<rparr>)"
proof -
  have c: "inodes w (ino (dbfile s)) = pre @ record_bytes d @ post"
    using assms(4) by (simp add: content_def)
  have h: "os_Read w (dbfile s) 9
      = (meta_Bytes (meta d), None, w, (dbfile s)\<lparr>pos := length pre + 9\<rparr>)"
    using assms(1,2,5) length_meta_Bytes [of "meta d"]
    by (auto simp add: os_Read_def metaSize_def c read_header Let_def)
  have cp: "copy_into 9 (meta_Bytes (meta d)) = meta_Bytes (meta d)"
    by (simp add: copy_into_def metaSize_def length_meta_Bytes)
  note t = sized_total [OF assms(3)]
  show ?thesis
  proof (cases "live d")
    case False
    then have del: "deleted (meta d) = 1" by (simp add: live_def)
    show ?thesis
      using assms(1,2) del False
      by (simp add: readDatum_def metaSize_def h cp meta_FromBytes_Bytes Let_def os_Seek_ok t(1)
          length_record_bytes Size_def ac_simps)
  next
    case True
    then have del: "deleted (meta d) \<noteq> 1" by (simp add: live_def)
    have b: "os_Read w ((dbfile s)\<lparr>pos := length pre + 9\<rparr>) (length (key d) + length (dvalue d))
      = (key d @ dvalue d, None, w, (dbfile s)\<lparr>pos := length pre + 9 + (length (key d) + length (dvalue d))\<rparr>)"
      using assms(1,2)
      by (auto simp add: os_Read_def c read_body Let_def)
    have l: "(of_nat (length (key d)) + of_nat (length (dvalue d)) :: uint32)
        = keySize (meta d) + valSize (meta d)"
      using t(2) by simp
    have cp2: "copy_into (length (key d) + length (dvalue d)) (key d @ dvalue d) = key d @ dvalue d"
      by (simp add: copy_into_def)
    show ?thesis
      using del True
      by (simp add: readDatum_def metaSize_def h cp meta_FromBytes_Bytes Let_def t(1) l b cp2
          KeyValFromBytes_sized [OF assms(3)] length_record_bytes)
        (simp add: ac_simps Size_def)
  qed
qed

lemma encode_Cons: "encode (d # ds) = record_bytes d @ encode ds"
  by (simp add: encode_def)

lemma encode_append: "encode (xs @ ys) = encode xs @ encode ys"
  by (simp add: encode_def)

lemma Size_sized:
  "sized d \<Longrightarrow> Size d = of_nat (length (record_bytes d))"
  by (simp add: sized_def Size_def length_record_bytes metaSize_def)

text \<open>The scan over well-formed records that are followed by an arbitrary tail.\<close>

lemma scan_records:
  assumes "faults w = []" "\<not> closed (dbfile s)" "\<forall>d\<in>set ds. sized d"
    and "content w s = pre @ encode ds @ post" "pos (dbfile s) = length pre"
    and "Storage.idx s = of_nat off"
  shows "scan w s =
     scan w (s\<lparr>dbfile := (dbfile s)\<lparr>pos := length pre + length (encode ds)\<rparr>,
               data := index_from off ds (data s),
               idx := of_nat (off + length (encode ds))\<rparr>)"
  using assms
proof (induction ds arbitrary: s pre off)
  case Nil
  have "s\<lparr>dbfile := (dbfile s)\<lparr>pos := length pre\<rparr>, data := data s, idx := of_nat off\<rparr> = s"
    using Nil.prems(5,6) by simp
  then show ?case by (simp add: encode_def)
next
  case (Cons d ds)
  have sd: "sized d" using Cons.prems(3) by simp
  have c: "content w s = pre @ record_bytes d @ (encode ds @ post)"
    using Cons.prems(4) by (simp add: encode_Cons)
  note rd = readDatum_record [OF Cons.prems(1,2) sd c Cons.prems(5)]
  let ?s1 = "s\<lparr>dbfile := (dbfile s)\<lparr>pos := length pre + length (record_bytes d)\<rparr>,
         idx := Storage.idx s + Size d\<rparr>"
  let ?s2 = "?s1\<lparr>data := (if live d then (data s)(key d \<mapsto> d\<lparr>datum.idx := of_nat off\<rparr>) else data s)\<rparr>"
  have step: "scan w s = scan w ?s2"
    by (subst scan.simps) (simp add: rd Store_def Cons.prems(6))
  have c2: "content w ?s2 = (pre @ record_bytes d) @ encode ds @ post"
    using c by (simp add: content_def)
  have i2: "Storage.idx ?s2 = of_nat (off + length (record_bytes d))"
    using Cons.prems(6) by (simp add: Size_sized [OF sd])
  have "scan w ?s2 =
     scan w (?s2\<lparr>dbfile := (dbfile ?s2)\<lparr>pos := length (pre @ record_bytes d) + length (encode ds)\<rparr>,
               data := index_from (off + length (record_bytes d)) ds (data ?s2),
               idx := of_nat (off + length (record_bytes d) + length (encode ds))\<rparr>)"
    using Cons.prems(1,2,3)
    by (intro Cons.IH [OF _ _ _ c2 _ i2]) simp_all
  with step show ?case
    by (simp add: encode_Cons add.assoc)
qed

lemma readDatum_short:
  assumes "faults w = []" "\<not> closed (dbfile s)"
    and "content w s = pre @ meta_Bytes m @ tail" "pos (dbfile s) = length pre"
    and "deleted m \<noteq> 1" "length tail < unat (keySize m + valSize m)"
  shows "readDatum w s =
     Returned (Inl (Errorf (''reading database file: reading key/val data: read ''
                  @ fmt_d (length tail) @ '' bytes, need '' @ fmt_d (unat (keySize m + valSize m)))),
       w, s\<lparr>dbfile := (dbfile s)\<lparr>pos := length pre + 9 + length tail\<rparr>\<rparr>)"
proof -
  have c: "inodes w (ino (dbfile s)) = pre @ meta_Bytes m @ tail"
    using assms(3) by (simp add: content_def)
  have h: "os_Read w (dbfile s) 9 = (meta_Bytes m, None, w, (dbfile s)\<lparr>pos := length pre + 9\<rparr>)"
    using assms(1,2,4) length_meta_Bytes [of m]
    by (auto simp add: os_Read_def c read_at_def Let_def)
  have cp: "copy_into 9 (meta_Bytes m) = meta_Bytes m"
    by (simp add: copy_into_def length_meta_Bytes)
  let ?n = "unat (keySize m + valSize m)"
  have n0: "?n \<noteq> 0" using assms(6) by simp
  have lt: "length tail < 2 ^ 32"
    using assms(6) unsigned_less [of "keySize m + valSize m", where 'a = nat] by simp
  have ne: "(of_nat (length tail) :: uint32) \<noteq> keySize m + valSize m"
  proof
    assume "(of_nat (length tail) :: uint32) = keySize m + valSize m"
    then have "unat (of_nat (length tail) :: uint32) = ?n" by simp
    with lt assms(6) show False by (simp add: unat_of_nat32)
  qed
  have ra: "read_at (pre @ meta_Bytes m @ tail) (length pre + 9) ?n = tail"
    using assms(6) by (simp add: read_at_def length_meta_Bytes)
  show ?thesis
  proof (cases "tail = []")
    case True
    have b: "os_Read w ((dbfile s)\<lparr>pos := length pre + 9\<rparr>) ?n
        = ([], Some EOF, w, (dbfile s)\<lparr>pos := length pre + 9\<rparr>)"
      using assms(1,2) n0 ra True by (simp add: os_Read_def c Let_def)
    show ?thesis
      using assms(5) ne True
      by (simp add: readDatum_def metaSize_def h cp meta_FromBytes_Bytes Let_def b)
  next
    case False
    have b: "os_Read w ((dbfile s)\<lparr>pos := length pre + 9\<rparr>) ?n
        = (tail, None, w, (dbfile s)\<lparr>pos := length pre + 9 + length tail\<rparr>)"
      using assms(1,2) n0 ra False by (simp add: os_Read_def c Let_def)
    show ?thesis
      using assms(5) ne
      by (simp add: readDatum_def metaSize_def h cp meta_FromBytes_Bytes Let_def b)
  qed
qed

lemma Close_ok:
  assumes "ready w s"
  shows "Close w s = Returned (None, w, s\<lparr>dbfile := (dbfile s)\<lparr>closed := True\<rparr>\<rparr>)"
  using assms
  by (simp add: Close_def with_muFile_def ready_def os_Sync_ok os_Close_def Let_def)


subsection \<open>The index of a layout\<close>

lemma live_keys_simps [simp]:
  "live_keys [] = []"
  "live_keys (d # ds) = (if live d then key d # live_keys ds else live_keys ds)"
  "live_keys (xs @ ys) = live_keys xs @ live_keys ys"
  by (simp_all add: live_keys_def)

lemma index_from_append:
  "index_from off (xs @ ys) m = index_from (off + length (encode xs)) ys (index_from off xs m)"
  by (induction xs arbitrary: off m) (simp_all add: encode_def add.assoc)

lemma dom_index_from:
  "dom (index_from off ds m) = dom m \<union> set (live_keys ds)"
  by (induction ds arbitrary: off m) auto

lemma index_from_other:
  "k \<notin> set (live_keys ds) \<Longrightarrow> index_from off ds m k = m k"
  by (induction ds arbitrary: off m) auto

lemma index_from_upd:
  "k \<notin> set (live_keys ds) \<Longrightarrow>
     index_from off ds (m(k := x)) = (index_from off ds m)(k := x)"
proof (induction ds arbitrary: off m)
  case Nil
  then show ?case by simp
next
  case (Cons a ds)
  show ?case
  proof (cases "live a")
    case True
    with Cons.prems have ne: "k \<noteq> key a" and nk: "k \<notin> set (live_keys ds)" by auto
    let ?A = "a\<lparr>datum.idx := of_nat off\<rparr>"
    let ?L = "off + length (record_bytes a)"
    have tw: "(m(k := x))(key a \<mapsto> ?A) = (m(key a \<mapsto> ?A))(k := x)"
      using ne by (rule fun_upd_twist)
    have "index_from off (a # ds) (m(k := x)) = index_from ?L ds ((m(k := x))(key a \<mapsto> ?A))"
      by (simp only: index_from.simps True if_True)
    also have "\<dots> = index_from ?L ds ((m(key a \<mapsto> ?A))(k := x))"
      by (simp only: tw)
    also have "\<dots> = (index_from ?L ds (m(key a \<mapsto> ?A)))(k := x)"
      by (rule Cons.IH [OF nk])
    also have "\<dots> = (index_from off (a # ds) m)(k := x)"
      by (simp only: index_from.simps True if_True)
    finally show ?thesis .
  next
    case False
    with Cons.prems have nk: "k \<notin> set (live_keys ds)" by auto
    have "index_from off (a # ds) (m(k := x)) = index_from (off + length (record_bytes a)) ds (m(k := x))"
      by (simp only: index_from.simps False if_False)
    also have "\<dots> = (index_from (off + length (record_bytes a)) ds m)(k := x)"
      by (rule Cons.IH [OF nk])
    also have "\<dots> = (index_from off (a # ds) m)(k := x)"
      by (simp only: index_from.simps False if_False)
    finally show ?thesis .
  qed
qed

lemma live_MarkDeleted [simp]: "\<not> live (MarkDeleted d)"
  by (simp add: live_def MarkDeleted_def)

lemma MarkDeleted_fields [simp]:
  "key (MarkDeleted d) = key d" "dvalue (MarkDeleted d) = dvalue d"
  "keySize (meta (MarkDeleted d)) = keySize (meta d)"
  "valSize (meta (MarkDeleted d)) = valSize (meta d)"
  "deleted (meta (MarkDeleted d)) = 1"
  by (simp_all add: MarkDeleted_def)

lemma sized_MarkDeleted [simp]: "sized (MarkDeleted d) = sized d"
  by (simp add: sized_def)

lemma length_record_bytes_MarkDeleted [simp]:
  "length (record_bytes (MarkDeleted d)) = length (record_bytes d)"
  by (simp add: length_record_bytes)

lemma length_encode_MarkDeleted [simp]:
  "length (encode (pre @ MarkDeleted d # post)) = length (encode (pre @ d # post))"
  by (simp add: encode_append encode_Cons)

text \<open>Looking a key up: its last live record decides.\<close>

lemma last_live_record:
  assumes "k \<in> set (live_keys ds)"
  shows "\<exists>pre d post. ds = pre @ d # post \<and> live d \<and> key d = k \<and> k \<notin> set (live_keys post)"
proof -
  from assms have "\<exists>d\<in>set ds. live d \<and> key d = k" by (auto simp: live_keys_def)
  then have "\<exists>pre d post. ds = pre @ d # post \<and> (live d \<and> key d = k)
      \<and> (\<forall>z\<in>set post. \<not> (live z \<and> key z = k))"
    by (rule split_list_last_prop)
  then obtain pre d post where "ds = pre @ d # post" "live d" "key d = k"
      "\<forall>z\<in>set post. \<not> (live z \<and> key z = k)"
    by blast
  moreover from this have "k \<notin> set (live_keys post)" by (auto simp: live_keys_def)
  ultimately show ?thesis by blast
qed

lemma index_from_Some:
  assumes "index_from off ds m k = Some x" "m k = None"
  shows "\<exists>pre d post. ds = pre @ d # post \<and> live d \<and> key d = k
     \<and> x = d\<lparr>datum.idx := of_nat (off + length (encode pre))\<rparr>
     \<and> k \<notin> set (live_keys post)"
proof -
  have "k \<in> set (live_keys ds)"
    using assms dom_index_from [of off ds m] by auto
  from last_live_record [OF this] obtain pre d post where
    sp: "ds = pre @ d # post" "live d" "key d = k" "k \<notin> set (live_keys post)"
    by blast
  have "index_from off ds m k = Some (d\<lparr>datum.idx := of_nat (off + length (encode pre))\<rparr>)"
    using sp by (simp add: index_from_append index_from_other)
  with assms(1) sp show ?thesis by auto
qed

lemma index_from_tombstone:
  assumes "live d" "key d \<notin> set (live_keys pre)" "key d \<notin> set (live_keys post)"
  shows "index_from 0 (pre @ MarkDeleted d # post) Map.empty
          = (index_from 0 (pre @ d # post) Map.empty)(key d := None)"
proof -
  let ?M = "index_from 0 pre Map.empty"
  let ?o = "length (encode pre) + length (record_bytes d)"
  have Mk: "?M (key d) = None"
    using assms(2) by (simp add: index_from_other)
  have a: "index_from 0 (pre @ MarkDeleted d # post) Map.empty = index_from ?o post ?M"
    by (simp add: index_from_append)
  have "index_from 0 (pre @ d # post) Map.empty
      = index_from ?o post (?M(key d \<mapsto> d\<lparr>datum.idx := of_nat (length (encode pre))\<rparr>))"
    using assms(1) by (simp add: index_from_append)
  also have "\<dots> = (index_from ?o post ?M)(key d \<mapsto> d\<lparr>datum.idx := of_nat (length (encode pre))\<rparr>)"
    using assms(3) by (rule index_from_upd)
  finally have b: "(index_from 0 (pre @ d # post) Map.empty)(key d := None)
      = (index_from ?o post ?M)(key d := None)"
    by simp
  have "index_from ?o post ?M (key d) = None"
    using assms(3) Mk by (simp add: index_from_other)
  then have "(index_from ?o post ?M)(key d := None) = index_from ?o post ?M"
    by (intro fun_upd_idem) simp
  with a b show ?thesis by simp
qed

subsection \<open>The tombstone byte of a record in a layout\<close>

lemma write_tombstone:
  "write_at (A @ record_bytes d @ C) (length A + 8) [1] = A @ record_bytes (MarkDeleted d) @ C"
  by (simp add: write_at_def record_bytes_def meta_Bytes_def MarkDeleted_def length_le_PutUint32)

lemma encode_tombstone:
  "write_at (encode (pre @ d # post)) (length (encode pre) + 8) [1]
     = encode (pre @ MarkDeleted d # post)"
  using write_tombstone [of "encode pre" d "encode post"]
  by (simp add: encode_append encode_Cons)


subsection \<open>Operations keep the layout\<close>

lemma layout_lookup:
  assumes "layout w s ds" "data s k = Some x"
  shows "\<exists>pre d post. ds = pre @ d # post \<and> live d \<and> key d = k
     \<and> x = d\<lparr>datum.idx := of_nat (length (encode pre))\<rparr>
     \<and> unat (datum.idx x) = length (encode pre)
     \<and> k \<notin> set (live_keys pre) \<and> k \<notin> set (live_keys post)"
proof -
  from assms have "index_from 0 ds Map.empty k = Some x" by (simp add: layout_def)
  from index_from_Some [OF this] obtain pre d post where
    sp: "ds = pre @ d # post" "live d" "key d = k"
      "x = d\<lparr>datum.idx := of_nat (length (encode pre))\<rparr>" "k \<notin> set (live_keys post)"
    by auto
  from assms(1) sp(1,2,3) have np: "k \<notin> set (live_keys pre)"
    by (auto simp: layout_def)
  from assms(1) sp(1) have "length (encode pre) < 2 ^ 32"
    by (simp add: layout_def encode_append)
  then have "unat (datum.idx x) = length (encode pre)"
    by (simp add: sp(4) unat_of_nat32)
  with sp np show ?thesis by blast
qed

lemma layout_tombstoned:
  assumes "layout w s ds"
  shows "\<exists>ds1. tombstoned (content w s) (data s k) = encode ds1
     \<and> (\<forall>d\<in>set ds1. sized d) \<and> length (encode ds1) = length (encode ds)
     \<and> distinct (live_keys ds1) \<and> k \<notin> set (live_keys ds1)
     \<and> index_from 0 ds1 Map.empty = (data s)(k := None)
     \<and> (case data s k of
           None \<Rightarrow> ds1 = ds
         | Some x \<Rightarrow> \<exists>pre d post. ds = pre @ d # post \<and> live d \<and> key d = k
             \<and> unat (datum.idx x) = length (encode pre) \<and> ds1 = pre @ MarkDeleted d # post)"
proof (cases "data s k")
  case None
  have "k \<notin> dom (index_from 0 ds Map.empty)"
    using None assms by (auto simp: layout_def)
  then have nk: "k \<notin> set (live_keys ds)" by (simp add: dom_index_from)
  have "(data s)(k := None) = data s" using None by (intro fun_upd_idem) simp
  with assms nk None show ?thesis
    by (intro exI [of _ ds]) (simp add: layout_def tombstoned_def)
next
  case (Some x)
  from layout_lookup [OF assms Some] obtain pre d post where
    sp: "ds = pre @ d # post" "live d" "key d = k"
      "unat (datum.idx x) = length (encode pre)"
      "k \<notin> set (live_keys pre)" "k \<notin> set (live_keys post)"
    by blast
  let ?ds1 = "pre @ MarkDeleted d # post"
  have c: "content w s = encode (pre @ d # post)"
    using assms sp(1) by (simp add: layout_def)
  have t: "tombstoned (content w s) (data s k) = encode ?ds1"
    by (simp add: tombstoned_def Some sp(4) c encode_tombstone)
  have i: "index_from 0 ?ds1 Map.empty = (data s)(k := None)"
    using assms sp index_from_tombstone [of d pre post] by (simp add: layout_def)
  have d: "distinct (live_keys ?ds1)" "k \<notin> set (live_keys ?ds1)"
    using assms sp by (auto simp: layout_def)
  have z: "\<forall>d\<in>set ?ds1. sized d" using assms sp(1) by (auto simp: layout_def)
  show ?thesis
    using t i d z sp by (intro exI [of _ ?ds1]) (auto simp: Some)
qed

lemma Set_layout:
  assumes "ready w s" "layout w s ds"
    and "no_vacuum_within s ((if data s k = None then 1 else 2) + n)"
    and "9 + length k + length v < 2 ^ 32" "length (encode ds) + (9 + length k + length v) < 2 ^ 32"
  shows "\<exists>w1 s1 ds1. Set w s k v = Returned (None, w1, s1) \<and> ready w1 s1 \<and> no_vacuum_within s1 n
     \<and> config s1 = config s \<and> ino (dbfile s1) = ino (dbfile s) \<and> dir w1 = dir w
     \<and> layout w1 s1 ds1 \<and> length (encode ds1) = length (encode ds) + (9 + length k + length v)
     \<and> dom (data s1) = insert k (dom (data s))"
proof -
  let ?dn = "datum_Set newDatum k v"
  from layout_tombstoned [OF assms(2), of k] obtain ds1 where
    t: "tombstoned (content w s) (data s k) = encode ds1"
    and z: "\<forall>d\<in>set ds1. sized d" and l: "length (encode ds1) = length (encode ds)"
    and d: "distinct (live_keys ds1)" "k \<notin> set (live_keys ds1)"
    and i: "index_from 0 ds1 Map.empty = (data s)(k := None)"
    by blast
  from Set_step [OF assms(1,3,4)] obtain w1 s1 where
    r: "Set w s k v = Returned (None, w1, s1)" "ready w1 s1" "no_vacuum_within s1 n"
      "config s1 = config s" "ino (dbfile s1) = ino (dbfile s)" "dir w1 = dir w"
    and dat: "data s1 = (data s)(k \<mapsto> ?dn\<lparr>datum.idx := of_nat (length (tombstoned (content w s) (data s k)))\<rparr>)"
    and ino: "inodes w1 = (inodes w)(ino (dbfile s) := tombstoned (content w s) (data s k) @ record_bytes ?dn)"
    by blast
  have sdn: "sized ?dn" using assms(4) by (rule sized_datum_Set)
  have ldn: "live ?dn" by (simp add: live_def datum_Set_new)
  have kdn: "key ?dn = k" by (simp add: datum_Set_new)
  have lb: "length (record_bytes ?dn) = 9 + length k + length v"
    by (simp add: length_record_bytes datum_Set_new)
  have c1: "content w1 s1 = encode (ds1 @ [?dn])"
    by (simp add: content_def r(5) ino t [unfolded content_def] encode_append encode_def)
  have "index_from 0 (ds1 @ [?dn]) Map.empty
      = (index_from 0 ds1 Map.empty)(k \<mapsto> ?dn\<lparr>datum.idx := of_nat (length (encode ds1))\<rparr>)"
    using ldn kdn by (simp add: index_from_append)
  also have "\<dots> = data s1"
    by (simp add: dat i t)
  finally have d1: "data s1 = index_from 0 (ds1 @ [?dn]) Map.empty" by simp
  have "layout w1 s1 (ds1 @ [?dn])"
    using c1 z sdn d ldn kdn d1 l lb assms(5)
    by (simp add: layout_def encode_append encode_Cons encode_def)
  moreover have "length (encode (ds1 @ [?dn])) = length (encode ds) + (9 + length k + length v)"
    using l lb by (simp add: encode_append encode_def)
  moreover have "dom (data s1) = insert k (dom (data s))" by (simp add: dat)
  ultimately show ?thesis using r by blast
qed

lemma Delete_layout:
  assumes "ready w s" "layout w s ds"
    and "no_vacuum_within s ((if data s k = None then 0 else 1) + n)"
  shows "\<exists>w1 s1 ds1. Delete w s k = Returned (None, w1, s1) \<and> ready w1 s1 \<and> no_vacuum_within s1 n
     \<and> config s1 = config s \<and> ino (dbfile s1) = ino (dbfile s) \<and> dir w1 = dir w
     \<and> layout w1 s1 ds1 \<and> length (encode ds1) = length (encode ds)
     \<and> dom (data s1) = dom (data s) - {k}"
proof -
  from layout_tombstoned [OF assms(2), of k] obtain ds1 where
    t: "tombstoned (content w s) (data s k) = encode ds1"
    and z: "\<forall>d\<in>set ds1. sized d" and l: "length (encode ds1) = length (encode ds)"
    and d: "distinct (live_keys ds1)" "k \<notin> set (live_keys ds1)"
    and i: "index_from 0 ds1 Map.empty = (data s)(k := None)"
    by blast
  from Delete_step [OF assms(1,3)] obtain w1 s1 where
    r: "Delete w s k = Returned (None, w1, s1)" "ready w1 s1" "no_vacuum_within s1 n"
      "config s1 = config s" "ino (dbfile s1) = ino (dbfile s)" "dir w1 = dir w"
    and dat: "data s1 = (data s)(k := None)"
    and ino: "inodes w1 = (inodes w)(ino (dbfile s) := tombstoned (content w s) (data s k))"
    by blast
  have c1: "content w1 s1 = encode ds1"
    by (simp add: content_def r(5) ino t [unfolded content_def])
  have "layout w1 s1 ds1"
    using c1 z d i dat l assms(2) by (simp add: layout_def)
  moreover have "dom (data s1) = dom (data s) - {k}" by (simp add: dat)
  ultimately show ?thesis using r l by blast
qed

lemma layout_keys: "layout w s ds \<Longrightarrow> dom (data s) = set (live_keys ds)"
  by (simp add: layout_def dom_index_from)

lemma run_ops_layout:
  assumes "ready w s" "layout w s ds" "\<forall>x\<in>set ops. op_fits x"
    and "length (encode ds) + sum_list (map op_bytes ops) < 2 ^ 32"
    and "no_vacuum_within s (writes ops (live_keys ds))"
  shows "\<exists>w' s' ds'. run_ops w s ops = Returned (None, w', s') \<and> ready w' s'
     \<and> config s' = config s \<and> ino (dbfile s') = ino (dbfile s) \<and> dir w' = dir w
     \<and> layout w' s' ds'"
  using assms
proof (induction ops arbitrary: w s ds)
  case Nil
  then show ?case by auto
next
  case (Cons x xs)
  note keys = layout_keys [OF Cons.prems(2)]
  have kin: "k \<in> set (live_keys ds) \<longleftrightarrow> data s k \<noteq> None" for k
    unfolding keys [symmetric] by (rule domIff)
  have nv: "no_vacuum_within s (op_writes (live_keys ds) x + writes xs (keys_after (live_keys ds) x))"
    using Cons.prems(5) by simp
  have "\<exists>w1 s1 ds1. apply_op w s x = Returned (None, w1, s1) \<and> ready w1 s1
     \<and> no_vacuum_within s1 (writes xs (keys_after (live_keys ds) x))
     \<and> config s1 = config s \<and> ino (dbfile s1) = ino (dbfile s) \<and> dir w1 = dir w
     \<and> layout w1 s1 ds1 \<and> length (encode ds1) = length (encode ds) + op_bytes x
     \<and> dom (data s1) = set (keys_after (live_keys ds) x)"
  proof (cases x)
    case (OpSet k v)
    have f: "9 + length k + length v < 2 ^ 32" using Cons.prems(3) OpSet by simp
    have b: "length (encode ds) + (9 + length k + length v) < 2 ^ 32"
      using Cons.prems(4) OpSet by simp
    have nv': "no_vacuum_within s ((if data s k = None then 1 else 2)
                 + writes xs (keys_after (live_keys ds) x))"
      using nv OpSet by (cases "data s k") (simp_all add: kin)
    from Set_layout [OF Cons.prems(1,2) nv' f b] show ?thesis by (simp add: OpSet keys)
  next
    case (OpDelete k)
    have nv': "no_vacuum_within s ((if data s k = None then 0 else 1)
                 + writes xs (keys_after (live_keys ds) x))"
      using nv OpDelete by (cases "data s k") (simp_all add: kin)
    from Delete_layout [OF Cons.prems(1,2) nv'] show ?thesis by (simp add: OpDelete keys)
  qed
  then obtain w1 s1 ds1 where
    a: "apply_op w s x = Returned (None, w1, s1)" and r1: "ready w1 s1"
    and nv1: "no_vacuum_within s1 (writes xs (keys_after (live_keys ds) x))"
    and f1: "config s1 = config s" "ino (dbfile s1) = ino (dbfile s)" "dir w1 = dir w"
    and l1: "layout w1 s1 ds1" and b1: "length (encode ds1) = length (encode ds) + op_bytes x"
    and k1: "dom (data s1) = set (keys_after (live_keys ds) x)"
    by blast
  from k1 have "set (keys_after (live_keys ds) x) = set (live_keys ds1)"
    using layout_keys [OF l1] by simp
  then have "writes xs (keys_after (live_keys ds) x) = writes xs (live_keys ds1)"
    by (rule writes_cong)
  with nv1 have nv2: "no_vacuum_within s1 (writes xs (live_keys ds1))"
    by simp
  have fx: "\<forall>y\<in>set xs. op_fits y" using Cons.prems(3) by simp
  have bx: "length (encode ds1) + sum_list (map op_bytes xs) < 2 ^ 32"
    using Cons.prems(4) b1 by simp
  from Cons.IH [OF r1 l1 fx bx nv2] obtain w' s' ds' where
    "run_ops w1 s1 xs = Returned (None, w', s')" "ready w' s'"
    "config s' = config s1" "ino (dbfile s') = ino (dbfile s1)" "dir w' = dir w1"
    "layout w' s' ds'"
    by blast
  with a f1 show ?case by auto
qed

lemma NewStorage_records:
  assumes "faults w = []" "holds_at w path (encode ds)" "\<forall>d\<in>set ds. sized d"
  shows "\<exists>s w1. NewStorage w path cfg = Returned (Inr s, w1) \<and> ready w1 s
     \<and> data s = index_from 0 ds Map.empty \<and> content w1 s = encode ds
     \<and> dir w1 path = Some (ino (dbfile s)) \<and> config s = config_of cfg
     \<and> writeCountVacuum s = 0 \<and> writeCountSync s = 0
     \<and> pos (dbfile s) = length (encode ds) \<and> Storage.idx s = of_nat (length (encode ds))"
proof -
  have "\<exists>f w1. os_OpenFile w path = (Inr f, w1) \<and> faults w1 = [] \<and> \<not> closed f
    \<and> pos f = 0 \<and> inodes w1 (ino f) = encode ds \<and> dir w1 path = Some (ino f)"
    using assms(1,2)
    by (cases "dir w path") (simp_all add: os_OpenFile_def holds_at_def)
  then obtain f w1 where o: "os_OpenFile w path = (Inr f, w1)" "faults w1 = []" "\<not> closed f"
    "pos f = 0" "inodes w1 (ino f) = encode ds" "dir w1 path = Some (ino f)"
    by blast
  let ?s0 = "\<lparr>name = path, dbfile = f, writeCountSync = 0, writeCountVacuum = 0, muFile = False,
              data = Map.empty, idx = 0, config = config_of cfg\<rparr>"
  let ?s1 = "?s0\<lparr>dbfile := (dbfile ?s0)\<lparr>pos := length ([]::byte list) + length (encode ds)\<rparr>,
               data := index_from 0 ds (data ?s0),
               idx := of_nat (0 + length (encode ds))\<rparr>"
  have c0: "content w1 ?s0 = [] @ encode ds @ []"
    using o(5) by (simp add: content_def)
  have "scan w1 ?s0 = scan w1 ?s1"
    using o(2,3,4) assms(3) by (intro scan_records [OF _ _ _ c0]) simp_all
  also have "\<dots> = Returned (Inr ?s1, w1)"
    using o(2,3,5) by (intro scan_eof) (simp_all add: content_def)
  finally have "NewStorage w path cfg = Returned (Inr ?s1, w1)"
    by (simp add: NewStorage_def o(1) config_of_def)
  then show ?thesis
    using o by (simp add: ready_def content_def)
qed


subsection \<open>The two loops of vacuum\<close>

lemma tmp_Write_ok:
  "faults w = [] \<Longrightarrow> b \<noteq> [] \<Longrightarrow>
   tmp_Write w t b = (length b, None, w,
      t\<lparr>tbytes := write_at (tbytes t) (tpos t) b, tpos := tpos t + length b\<rparr>)"
  by (simp add: tmp_Write_def)

lemma record_bytes_nonempty [simp]: "record_bytes d \<noteq> []"
  using length_record_bytes [of d] by auto

lemma vacuum_read_records:
  assumes "faults w = []" "\<not> closed (dbfile s)" "\<forall>d\<in>set ds. sized d"
    and "content w s = pre @ encode ds @ post" "pos (dbfile s) = length pre"
    and "tpos c = length (tbytes c)"
  shows "vacuum_read w s c n =
     vacuum_read w
       (s\<lparr>dbfile := (dbfile s)\<lparr>pos := length pre + length (encode ds)\<rparr>,
          idx := Storage.idx s + of_nat (length (encode ds))\<rparr>)
       (c\<lparr>tbytes := tbytes c @ encode (filter live ds),
          tpos := length (tbytes c) + length (encode (filter live ds))\<rparr>)
       (n + length (encode (filter live ds)))"
  using assms
proof (induction ds arbitrary: s pre c n)
  case Nil
  have "s\<lparr>dbfile := (dbfile s)\<lparr>pos := length pre\<rparr>, idx := Storage.idx s\<rparr> = s"
    using Nil.prems(5) by simp
  moreover have "c\<lparr>tbytes := tbytes c, tpos := length (tbytes c)\<rparr> = c"
    using Nil.prems(6) by simp
  ultimately show ?case by (simp add: encode_def)
next
  case (Cons d ds)
  have sd: "sized d" using Cons.prems(3) by simp
  have cc: "content w s = pre @ record_bytes d @ (encode ds @ post)"
    using Cons.prems(4) by (simp add: encode_Cons)
  note rd = readDatum_record [OF Cons.prems(1,2) sd cc Cons.prems(5)]
  let ?s1 = "s\<lparr>dbfile := (dbfile s)\<lparr>pos := length pre + length (record_bytes d)\<rparr>,
         idx := Storage.idx s + Size d\<rparr>"
  let ?c1 = "if live d then c\<lparr>tbytes := tbytes c @ record_bytes d,
                            tpos := length (tbytes c) + length (record_bytes d)\<rparr> else c"
  let ?n1 = "if live d then n + length (record_bytes d) else n"
  have sz: "sized (d\<lparr>datum.idx := Storage.idx s\<rparr>)" using sd by (simp add: sized_def)
  have db: "datum_Bytes (d\<lparr>datum.idx := Storage.idx s\<rparr>) = Some (record_bytes d)"
    using datum_Bytes_sized [OF sz] by (simp add: record_bytes_def)
  have step: "vacuum_read w s c n = vacuum_read w ?s1 ?c1 ?n1"
    using Cons.prems(1,6)
    by (subst vacuum_read.simps) (simp add: rd db tmp_Write_ok Let_def)
  have c2: "content w ?s1 = (pre @ record_bytes d) @ encode ds @ post"
    using cc by (simp add: content_def)
  have t1: "tpos ?c1 = length (tbytes ?c1)" using Cons.prems(6) by simp
  have "vacuum_read w ?s1 ?c1 ?n1 =
     vacuum_read w
       (?s1\<lparr>dbfile := (dbfile ?s1)\<lparr>pos := length (pre @ record_bytes d) + length (encode ds)\<rparr>,
          idx := Storage.idx ?s1 + of_nat (length (encode ds))\<rparr>)
       (?c1\<lparr>tbytes := tbytes ?c1 @ encode (filter live ds),
          tpos := length (tbytes ?c1) + length (encode (filter live ds))\<rparr>)
       (?n1 + length (encode (filter live ds)))"
    using Cons.prems(1,2,3)
    by (intro Cons.IH [OF _ _ _ c2 _ t1]) simp_all
  with step show ?case
    by (simp add: encode_Cons Size_sized [OF sd] add.assoc)
qed

lemma vacuum_read_eof:
  assumes "faults w = []" "\<not> closed (dbfile s)" "length (content w s) \<le> pos (dbfile s)"
  shows "vacuum_read w s c n = Returned (None, w, s, c, n)"
  by (subst vacuum_read.simps) (simp add: readDatum_eof [OF assms])

lemma write_at_write_at:
  "p \<le> length c \<Longrightarrow> write_at (write_at c p a) (p + length a) b = write_at c p (a @ b)"
  by (auto simp: write_at_def min_def ac_simps)

lemma write_at_Nil: "p \<le> length c \<Longrightarrow> write_at c p [] = c"
  by (simp add: write_at_def)

lemma tmp_Read_ok:
  "faults w = [] \<Longrightarrow> 0 < n \<Longrightarrow>
   tmp_Read w t n =
     (if read_at (tbytes t) (tpos t) n = [] then ([], Some EOF, w, t)
      else (read_at (tbytes t) (tpos t) n, None, w,
            t\<lparr>tpos := tpos t + length (read_at (tbytes t) (tpos t) n)\<rparr>))"
  by (simp add: tmp_Read_def Let_def)

lemma vacuum_copy_all:
  assumes "faults w = []" "\<not> closed (dbfile s)" "pos (dbfile s) \<le> length (content w s)"
  shows "\<exists>w' s'. vacuum_copy w s c = Returned (None, w', s')
     \<and> faults w' = [] \<and> dir w' = dir w
     \<and> inodes w' = (inodes w)(ino (dbfile s) :=
           write_at (content w s) (pos (dbfile s)) (drop (tpos c) (tbytes c)))
     \<and> s' = s\<lparr>dbfile := (dbfile s)\<lparr>pos := pos (dbfile s) + length (drop (tpos c) (tbytes c))\<rparr>\<rparr>"
  using assms
proof (induction "length (tbytes c) - tpos c" arbitrary: w s c rule: less_induct)
  case less
  let ?got = "read_at (tbytes c) (tpos c) 5120"
  show ?case
  proof (cases "?got = []")
    case True
    then have d: "drop (tpos c) (tbytes c) = []" by (simp add: read_at_def)
    have e: "(inodes w)(ino (dbfile s) := content w s) = inodes w"
      by (simp add: content_def)
    have e2: "s\<lparr>dbfile := (dbfile s)\<lparr>pos := pos (dbfile s)\<rparr>\<rparr> = s" by simp
    show ?thesis
      using less.prems True
      by (subst vacuum_copy.simps) (simp add: tmp_Read_ok d write_at_Nil e)
  next
    case False
    let ?w1 = "w\<lparr>inodes := (inodes w)(ino (dbfile s) := write_at (content w s) (pos (dbfile s)) ?got),
                journal := journal w @ [(ino (dbfile s), pos (dbfile s), ?got)]\<rparr>"
    let ?s1 = "s\<lparr>dbfile := (dbfile s)\<lparr>pos := pos (dbfile s) + length ?got\<rparr>\<rparr>"
    let ?c1 = "c\<lparr>tpos := tpos c + length ?got\<rparr>"
    have step: "vacuum_copy w s c = vacuum_copy ?w1 ?s1 ?c1"
      using less.prems False
      by (subst vacuum_copy.simps) (simp add: tmp_Read_ok os_Write_ok Let_def content_def)
    have lg: "0 < length ?got" using False by simp
    have lt: "tpos c < length (tbytes c)" using False by (auto simp: read_at_def)
    have m: "length (tbytes ?c1) - tpos ?c1 < length (tbytes c) - tpos c"
    proof -
      have "length (tbytes c) - (tpos c + length ?got) < length (tbytes c) - tpos c"
        using lg lt by arith
      then show ?thesis by simp
    qed
    have c1: "content ?w1 ?s1 = write_at (content w s) (pos (dbfile s)) ?got"
      by (simp add: content_def)
    have p1: "pos (dbfile ?s1) \<le> length (content ?w1 ?s1)"
      by (simp add: c1 length_write_at)
    have f1: "faults ?w1 = []" "\<not> closed (dbfile ?s1)" using less.prems by simp_all
    from less.hyps [OF m f1 p1] obtain w' s' where
      r: "vacuum_copy ?w1 ?s1 ?c1 = Returned (None, w', s')" "faults w' = []" "dir w' = dir ?w1"
        "inodes w' = (inodes ?w1)(ino (dbfile ?s1) :=
           write_at (content ?w1 ?s1) (pos (dbfile ?s1)) (drop (tpos ?c1) (tbytes ?c1)))"
        "s' = ?s1\<lparr>dbfile := (dbfile ?s1)\<lparr>pos := pos (dbfile ?s1) + length (drop (tpos ?c1) (tbytes ?c1))\<rparr>\<rparr>"
      by blast
    have sp: "?got @ drop (tpos c + length ?got) (tbytes c) = drop (tpos c) (tbytes c)"
      by (simp add: read_at_def min_def drop_take [symmetric] add.commute)
        (metis append_take_drop_id drop_drop add.commute)
    have w2: "write_at (content ?w1 ?s1) (pos (dbfile ?s1)) (drop (tpos ?c1) (tbytes ?c1))
        = write_at (content w s) (pos (dbfile s)) (drop (tpos c) (tbytes c))"
      using less.prems(3) by (simp add: c1 write_at_write_at sp)
    have i': "inodes w' = (inodes w)(ino (dbfile s) :=
           write_at (content w s) (pos (dbfile s)) (drop (tpos c) (tbytes c)))"
      using r(4) w2 by simp
    have l2: "length ?got + length (drop (tpos ?c1) (tbytes ?c1)) = length (drop (tpos c) (tbytes c))"
      using arg_cong [OF sp, of length] by simp
    have s2: "s' = s\<lparr>dbfile := (dbfile s)\<lparr>pos := pos (dbfile s) + length (drop (tpos c) (tbytes c))\<rparr>\<rparr>"
      using r(5) l2 by (simp add: add.assoc)
    show ?thesis
      using step r(1,2,3) i' s2 by simp
  qed
qed

lemma length_encode_filter: "length (encode (filter P ds)) \<le> length (encode ds)"
  by (induction ds) (simp_all add: encode_def)

lemma length_encode_sum:
  "length (encode ds) = sum_list (map (\<lambda>d. 9 + length (key d) + length (dvalue d)) ds)"
  by (induction ds) (simp_all add: encode_def length_record_bytes)

lemma truncate_after_copy: "copy_into (length L) (write_at E 0 L) = L"
  by (simp add: copy_into_def write_at_def)

subsection \<open>Round trip of the codec\<close>

text \<open>
  Claim C8, as the code has it. For every key and value whose record fits 32 bits
  (\<open>9 + length k + length v < 2 ^ 32\<close>), the record made by \<^verbatim>\<open>datum.Set\<close> encodes
  without a panic to the 9-byte little-endian header, then the key, then the value, and
  decoding that header with \<^verbatim>\<open>meta.FromBytes\<close> and that body with \<^verbatim>\<open>KeyValFromBytes\<close>
  gives the record back. The header \<open>{8675309, 10, 1}\<close> encodes to
  \<^verbatim>\<open>ED 5F 84 00 0A 00 00 00 01\<close>, those bytes decode to the same header, and a slice of
  three bytes is refused with \<^verbatim>\<open>ErrInvalidMetaSlice\<close>.
\<close>

theorem codec_round_trip:
  "(9 + length k + length v < 2 ^ 32 \<longrightarrow>
      (\<exists>b. datum_Bytes (datum_Set newDatum k v) = Some b
         \<and> b = meta_Bytes (meta (datum_Set newDatum k v)) @ k @ v
         \<and> length b = 9 + length k + length v
         \<and> meta_FromBytes (take metaSize b) = Inr (meta (datum_Set newDatum k v))
         \<and> KeyValFromBytes \<lparr>meta = meta (datum_Set newDatum k v), key = [], dvalue = [], idx = 0\<rparr>
              (drop metaSize b) = Some (Inr (datum_Set newDatum k v))))
   \<and> meta_Bytes \<lparr>keySize = 8675309, valSize = 10, deleted = 1\<rparr>
        = [0xED, 0x5F, 0x84, 0x00, 0x0A, 0x00, 0x00, 0x00, 0x01]
   \<and> meta_FromBytes [0xED, 0x5F, 0x84, 0x00, 0x0A, 0x00, 0x00, 0x00, 0x01]
        = Inr \<lparr>keySize = 8675309, valSize = 10, deleted = 1\<rparr>
   \<and> meta_FromBytes [0x62, 0x61, 0x64] = Inl ErrInvalidMetaSlice"
proof (intro conjI impI)
  assume fit: "9 + length k + length v < 2 ^ 32"
  let ?d = "datum_Set newDatum k v"
  have s: "sized ?d" using fit by (rule sized_datum_Set)
  have kv: "key ?d = k" "dvalue ?d = v" by (simp_all add: datum_Set_new)
  have idx0: "?d\<lparr>datum.idx := 0\<rparr> = ?d" by (simp add: datum_Set_new)
  have enc: "datum_Bytes ?d = Some (meta_Bytes (meta ?d) @ k @ v)"
    using datum_Bytes_sized [OF s] by (simp add: kv)
  have dec: "KeyValFromBytes \<lparr>meta = meta ?d, key = [], dvalue = [], idx = 0\<rparr> (k @ v) = Some (Inr ?d)"
    using KeyValFromBytes_sized [OF s, of "[]" "[]" 0] by (simp add: kv idx0)
  show "\<exists>b. datum_Bytes ?d = Some b
         \<and> b = meta_Bytes (meta ?d) @ k @ v
         \<and> length b = 9 + length k + length v
         \<and> meta_FromBytes (take metaSize b) = Inr (meta ?d)
         \<and> KeyValFromBytes \<lparr>meta = meta ?d, key = [], dvalue = [], idx = 0\<rparr>
              (drop metaSize b) = Some (Inr ?d)"
    using enc dec by (simp add: length_meta_Bytes metaSize_def meta_FromBytes_Bytes)
next
  show "meta_Bytes \<lparr>keySize = 8675309, valSize = 10, deleted = 1\<rparr>
        = [0xED, 0x5F, 0x84, 0x00, 0x0A, 0x00, 0x00, 0x00, 0x01]"
    by (simp add: meta_Bytes_def le_PutUint32_def)
next
  show "meta_FromBytes [0xED, 0x5F, 0x84, 0x00, 0x0A, 0x00, 0x00, 0x00, 0x01]
        = Inr \<lparr>keySize = 8675309, valSize = 10, deleted = 1\<rparr>"
    by (simp add: meta_FromBytes_def le_Uint32_def metaSize_def)
next
  show "meta_FromBytes [0x62, 0x61, 0x64] = Inl ErrInvalidMetaSlice"
    by (simp add: meta_FromBytes_def metaSize_def)
qed

theorem codec_round_trip_witness:
  "datum_Bytes (datum_Set newDatum [0x61] [0x62, 0x63])
     = Some [1, 0, 0, 0, 2, 0, 0, 0, 0, 0x61, 0x62, 0x63]
   \<and> KeyValFromBytes \<lparr>meta = meta (datum_Set newDatum [0x61] [0x62, 0x63]), key = [], dvalue = [], idx = 0\<rparr>
        [0x61, 0x62, 0x63] = Some (Inr (datum_Set newDatum [0x61] [0x62, 0x63]))"
  using codec_round_trip [of "[0x61]" "[0x62, 0x63]"]
  by (simp add: metaSize_def datum_Set_new meta_Bytes_def le_PutUint32_def)

theorem codec_round_trip_counterexample:
  "length (replicate 4294967295 (0::byte)) < 2 ^ 32 \<and> length ([]::byte list) < 2 ^ 32
   \<and> datum_Bytes (datum_Set newDatum (replicate 4294967295 0) []) = None"
  by (simp add: datum_Bytes_def datum_Set_def newDatum_def Size_def metaSize_def Let_def)

subsection \<open>Get after a sequence of operations\<close>

text \<open>
  A store is opened on a path that names no file or an empty file; no system call
  fails, every record written fits 32 bits, and the writes of the sequence, counted by
  \<open>writes\<close>, stay below \<^verbatim>\<open>VacuumBatch\<close> (or \<^verbatim>\<open>VacuumBatch\<close> is 0). Then \<^verbatim>\<open>NewStorage\<close> returns the
  store, every operation of the sequence returns \<^verbatim>\<open>nil\<close>, and afterwards \<^verbatim>\<open>Get(k)\<close> returns
  \<open>(v, true)\<close> exactly when the last operation on \<open>k\<close> was \<^verbatim>\<open>Set(k, v)\<close>, and
  \<open>(empty, false)\<close> otherwise.
\<close>

lemma Get_below_threshold:
  assumes "faults w = []" and "empty_at w path"
    and "\<forall>x\<in>set ops. op_fits x"
    and "VacuumBatch (config_of cfg) = 0 \<or> writes ops [] < unat (VacuumBatch (config_of cfg))"
  shows "\<exists>s w1 w' s'. NewStorage w path cfg = Returned (Inr s, w1)
           \<and> run_ops w1 s ops = Returned (None, w', s')
           \<and> (\<forall>k. Get s' k = expected_Get ops k)"
proof -
  from NewStorage_empty [OF assms(1,2), of cfg] obtain s w1 where
    n: "NewStorage w path cfg = Returned (Inr s, w1)" and r: "ready w1 s"
    and d: "data s = Map.empty" and c: "config s = config_of cfg" and v: "writeCountVacuum s = 0"
    by blast
  have nv: "no_vacuum_within s (writes ops [])"
    using assms(4) by (simp add: no_vacuum_within_def c v)
  have ks: "set [] = dom (data s)" by (simp add: d)
  from run_ops_ok [OF r assms(3) ks nv] obtain w' s' where
    b: "run_ops w1 s ops = Returned (None, w', s')"
    and g: "\<And>k. Get s' k = (case last_on ops k of
                            Some (OpSet k' v) \<Rightarrow> (v, True)
                          | Some (OpDelete k') \<Rightarrow> ([], False)
                          | None \<Rightarrow> Get s k)"
    by blast
  have "Get s' k = expected_Get ops k" for k
    by (subst g) (simp add: expected_Get_def Get_data d split: option.splits op.splits)
  with n b show ?thesis by blast
qed

text \<open>
  Claim C1 says that after every finite sequence of \<^verbatim>\<open>Set\<close> and \<^verbatim>\<open>Delete\<close> operations on a
  store opened on an empty file, \<^verbatim>\<open>Get(k)\<close> returns \<open>(v, true)\<close> exactly when the last
  operation on \<open>k\<close> was \<^verbatim>\<open>Set(k, v)\<close>. A sequence whose writes reach \<^verbatim>\<open>VacuumBatch\<close> has no
  state afterwards: the write that brings the counter to \<^verbatim>\<open>VacuumBatch\<close> calls \<^verbatim>\<open>vacuum\<close>
  while it holds \<^verbatim>\<open>muFile\<close>, and does not return. With \<^verbatim>\<open>VacuumBatch = 3\<close> on an empty
  file, after \<^verbatim>\<open>Set([1], [7])\<close> and \<^verbatim>\<open>Set([2], [8])\<close> the two keys are there as claimed;
  a third operation that writes, \<^verbatim>\<open>Set([3], [9])\<close> or \<^verbatim>\<open>Delete([1])\<close>, blocks, and so does
  \<^verbatim>\<open>Set([1], [8])\<close> as the second operation, which makes the second and the third write.
  With \<^verbatim>\<open>VacuumBatch = 0\<close> the same sequences come to an end.
\<close>

theorem sequence_blocks_at_vacuum_batch:
  "(case NewStorage empty_world ''db'' (Some \<lparr>VacuumBatch = 3, FsyncBatch = 0\<rparr>) of
      Returned (Inr s, w) \<Rightarrow>
        (case run_ops w s [OpSet [1] [7], OpSet [2] [8]] of
           Returned (None, w2, s2) \<Rightarrow>
             Get s2 [1] = ([7], True) \<and> Get s2 [2] = ([8], True) \<and> Get s2 [3] = ([], False)
         | _ \<Rightarrow> False)
        \<and> (case run_ops w s [OpSet [1] [7], OpSet [2] [8], OpSet [3] [9]] of
              Blocked \<Rightarrow> True | _ \<Rightarrow> False)
        \<and> (case run_ops w s [OpSet [1] [7], OpSet [2] [8], OpDelete [1]] of
              Blocked \<Rightarrow> True | _ \<Rightarrow> False)
        \<and> (case run_ops w s [OpSet [1] [7], OpSet [1] [8]] of
              Blocked \<Rightarrow> True | _ \<Rightarrow> False)
    | _ \<Rightarrow> False)
   \<and> (case NewStorage empty_world ''db'' (Some \<lparr>VacuumBatch = 0, FsyncBatch = 0\<rparr>) of
      Returned (Inr s, w) \<Rightarrow>
        (case run_ops w s [OpSet [1] [7], OpSet [2] [8], OpSet [3] [9]] of
           Returned (None, w2, s2) \<Rightarrow> Get s2 [3] = ([9], True)
         | _ \<Rightarrow> False)
    | _ \<Rightarrow> False)"
  by code_simp

subsection \<open>A Set whose append fails\<close>



subsection \<open>A partially written tail\<close>

text \<open>
  Claim C6, as the code has it. The file consists of well-formed records, then a
  complete header \<open>m\<close> whose deleted byte is not 1, then fewer bytes than the 32-bit
  sum \<open>keySize m + valSize m\<close>; no system call fails. Then \<^verbatim>\<open>NewStorage\<close> returns no
  store and leaves the world, the file included, as it was. The error it returns is
  \<^verbatim>\<open>reading datum: \<close> wrapped around the error of \<^verbatim>\<open>readDatum\<close>, whose message is
  \<^verbatim>\<open>reading database file: reading key/val data: read <n> bytes, need <k+v>\<close> with \<open>n\<close>
  the number of bytes after the header.
\<close>

theorem open_short_tail:
  assumes "faults w = []" and "dir w path = Some i"
    and "inodes w i = encode ds @ meta_Bytes m @ tail" and "\<forall>d\<in>set ds. sized d"
    and "deleted m \<noteq> 1" and "length tail < unat (keySize m + valSize m)"
  shows "NewStorage w path cfg =
     Returned (Inl (Wrapf ''reading datum: ''
                 (Errorf (''reading database file: reading key/val data: read ''
                    @ fmt_d (length tail) @ '' bytes, need ''
                    @ fmt_d (unat (keySize m + valSize m))))), w)"
proof -
  let ?s0 = "\<lparr>name = path, dbfile = \<lparr>fname = path, ino = i, pos = 0, closed = False\<rparr>,
             writeCountSync = 0, writeCountVacuum = 0, muFile = False, data = Map.empty, idx = 0,
             config = config_of cfg\<rparr>"
  let ?s1 = "?s0\<lparr>dbfile := (dbfile ?s0)\<lparr>pos := length ([]::byte list) + length (encode ds)\<rparr>,
               data := index_from 0 ds (data ?s0),
               idx := of_nat (0 + length (encode ds))\<rparr>"
  have c0: "content w ?s0 = [] @ encode ds @ (meta_Bytes m @ tail)"
    using assms(3) by (simp add: content_def)
  have sc: "scan w ?s0 = scan w ?s1"
    using assms(1,4) by (intro scan_records [OF _ _ _ c0]) simp_all
  have c1: "content w ?s1 = encode ds @ meta_Bytes m @ tail"
    using assms(3) by (simp add: content_def)
  have rd: "readDatum w ?s1 =
     Returned (Inl (Errorf (''reading database file: reading key/val data: read ''
                  @ fmt_d (length tail) @ '' bytes, need '' @ fmt_d (unat (keySize m + valSize m)))),
       w, ?s1\<lparr>dbfile := (dbfile ?s1)\<lparr>pos := length (encode ds) + 9 + length tail\<rparr>\<rparr>)"
    using assms(1,5,6) by (intro readDatum_short [OF _ _ c1]) simp_all
  have "scan w ?s1 = Returned (Inl (Wrapf ''reading datum: ''
                 (Errorf (''reading database file: reading key/val data: read ''
                    @ fmt_d (length tail) @ '' bytes, need ''
                    @ fmt_d (unat (keySize m + valSize m))))), w)"
    using assms(1) by (subst scan.simps, subst rd) (simp add: Close_ok ready_def)
  with sc show ?thesis
    using assms(1,2)
    by (simp add: NewStorage_def os_OpenFile_def config_of_def)
qed

theorem open_short_tail_witness:
  "\<exists>e. NewStorage (world_with_file [1, 0, 0, 0, 1, 0, 0, 0, 0, 1, 7,  1, 0, 0, 0, 2, 0, 0, 0, 0,  5]) ''db'' None
         = Returned (Inl e, world_with_file [1, 0, 0, 0, 1, 0, 0, 0, 0, 1, 7,  1, 0, 0, 0, 2, 0, 0, 0, 0,  5])
       \<and> message e = ''reading datum: reading database file: reading key/val data: read 1 bytes, need 3''"
  using open_short_tail [of "world_with_file [1, 0, 0, 0, 1, 0, 0, 0, 0, 1, 7,  1, 0, 0, 0, 2, 0, 0, 0, 0,  5]"
      "''db''" 0 "[\<lparr>meta = \<lparr>keySize = 1, valSize = 1, deleted = 0\<rparr>, key = [1], dvalue = [7], idx = 0\<rparr>]"
      "\<lparr>keySize = 1, valSize = 2, deleted = 0\<rparr>" "[5]" None]
  by (simp add: world_with_file_def encode_def record_bytes_def meta_Bytes_def le_PutUint32_def
      sized_def fmt_d.simps digit_def)

text \<open>
  The claim as stated fails on a tail whose header is tombstoned: \<^verbatim>\<open>readDatum\<close> skips
  the body of a tombstoned record with \<^verbatim>\<open>Seek\<close> and does not read it, so a file that
  ends right after the header \<open>{1, 1, deleted = 1}\<close> opens without error. And the
  message of the error that \<^verbatim>\<open>NewStorage\<close> returns for a live short tail starts with
  \<^verbatim>\<open>reading datum: \<close>.
\<close>

theorem open_short_tail_counterexample:
  "(case NewStorage (world_with_file [1, 0, 0, 0, 1, 0, 0, 0, 1]) ''db'' None of
      Returned (Inr s, w) \<Rightarrow> Get s [] = ([], False)
    | _ \<Rightarrow> False)
   \<and> (case NewStorage (world_with_file [1, 0, 0, 0, 2, 0, 0, 0, 0, 5]) ''db'' None of
      Returned (Inl e, w) \<Rightarrow>
        message e = ''reading datum: reading database file: reading key/val data: read 1 bytes, need 3''
    | _ \<Rightarrow> False)"
  by code_simp

subsection \<open>Durability\<close>

text \<open>
  Claim C3, as the code has it. The path names a file of well-formed records \<open>ds\<close> (an
  absent or empty file is the case \<open>ds = []\<close>) and no system call fails. Then
  \<^verbatim>\<open>NewStorage\<close> returns a store whose index is \<open>index_from\<close> of the records, whether or not a key has several
  live records: each live record is installed under its key, a later record replaces
  an earlier one, and a tombstoned record is passed over; the cursor and \<^verbatim>\<open>idx\<close> are at
  the end of the file. If moreover no two live records of the file have the same key,
  every record written fits 32 bits, the file stays below \<open>2 ^ 32\<close> bytes, and the writes
  of the sequence, counted by \<open>writes\<close>, stay below \<^verbatim>\<open>VacuumBatch\<close> (or \<^verbatim>\<open>VacuumBatch\<close> is 0),
  then every operation of the sequence returns \<^verbatim>\<open>nil\<close>, \<^verbatim>\<open>Close\<close> returns \<^verbatim>\<open>nil\<close>, a new
  \<^verbatim>\<open>NewStorage\<close> on the same path returns a store, and the index of that store is the
  index before \<^verbatim>\<open>Close\<close>.
\<close>

theorem durable_reopen:
  assumes "faults w = []" and "holds_at w path (encode ds)" and "\<forall>d\<in>set ds. sized d"
  shows "\<exists>s w1.
       NewStorage w path cfg = Returned (Inr s, w1) \<and> data s = index_from 0 ds Map.empty
     \<and> pos (dbfile s) = length (encode ds) \<and> Storage.idx s = of_nat (length (encode ds))
     \<and> (distinct (live_keys ds) \<and> (\<forall>x\<in>set ops. op_fits x)
          \<and> length (encode ds) + sum_list (map op_bytes ops) < 2 ^ 32
          \<and> (VacuumBatch (config_of cfg) = 0
               \<or> writes ops (live_keys ds) < unat (VacuumBatch (config_of cfg)))
        \<longrightarrow> (\<exists>s2 w2 s3 w3 s4 w4.
               run_ops w1 s ops = Returned (None, w2, s2)
             \<and> Close w2 s2 = Returned (None, w3, s3)
             \<and> NewStorage w3 path cfg' = Returned (Inr s4, w4)
             \<and> data s4 = data s2))"
proof -
  from NewStorage_records [OF assms(1,2,3), of cfg] obtain s w1 where
    n: "NewStorage w path cfg = Returned (Inr s, w1)" and r: "ready w1 s"
    and d: "data s = index_from 0 ds Map.empty" and c: "content w1 s = encode ds"
    and p: "dir w1 path = Some (ino (dbfile s))" and cf: "config s = config_of cfg"
    and v: "writeCountVacuum s = 0"
    and cur: "pos (dbfile s) = length (encode ds)" "Storage.idx s = of_nat (length (encode ds))"
    by blast
  have "\<exists>s2 w2 s3 w3 s4 w4.
               run_ops w1 s ops = Returned (None, w2, s2)
             \<and> Close w2 s2 = Returned (None, w3, s3)
             \<and> NewStorage w3 path cfg' = Returned (Inr s4, w4)
             \<and> data s4 = data s2"
    if di: "distinct (live_keys ds)" and fit: "\<forall>x\<in>set ops. op_fits x"
      and len: "length (encode ds) + sum_list (map op_bytes ops) < 2 ^ 32"
      and vb: "VacuumBatch (config_of cfg) = 0
               \<or> writes ops (live_keys ds) < unat (VacuumBatch (config_of cfg))"
  proof -
    have lay: "layout w1 s ds"
      using assms(3) di len d c by (simp add: layout_def)
    have nv: "no_vacuum_within s (writes ops (live_keys ds))"
      using vb by (simp add: no_vacuum_within_def cf v)
    from run_ops_layout [OF r lay fit len nv] obtain w2 s2 ds2 where
      ru: "run_ops w1 s ops = Returned (None, w2, s2)" and r2: "ready w2 s2"
      and f2: "ino (dbfile s2) = ino (dbfile s)" "dir w2 = dir w1"
      and l2: "layout w2 s2 ds2"
      by blast
    let ?s3 = "s2\<lparr>dbfile := (dbfile s2)\<lparr>closed := True\<rparr>\<rparr>"
    have cl: "Close w2 s2 = Returned (None, w2, ?s3)" using r2 by (rule Close_ok)
    have h2: "holds_at w2 path (encode ds2)"
      using l2 p f2 by (simp add: holds_at_def layout_def content_def)
    have z2: "\<forall>d\<in>set ds2. sized d" using l2 by (simp add: layout_def)
    have fl: "faults w2 = []" using r2 by (simp add: ready_def)
    from NewStorage_records [OF fl h2 z2, of cfg'] obtain s4 w4 where
      n4: "NewStorage w2 path cfg' = Returned (Inr s4, w4)"
      and d4: "data s4 = index_from 0 ds2 Map.empty"
      by blast
    have "data s4 = data s2" using d4 l2 by (simp add: layout_def)
    with ru cl n4 show ?thesis by blast
  qed
  with n d cur show ?thesis by blast
qed

theorem durable_reopen_witness:
  "(\<exists>s w1.
       NewStorage (world_with_file (encode [datum_Set newDatum [3] [9], datum_Set newDatum [3] [5]]))
           ''db'' None = Returned (Inr s, w1)
     \<and> Get s [3] = ([5], True) \<and> map_option datum.idx (data s [3]) = Some 11)
   \<and> (\<exists>s w1 s2 w2 s3 w3 s4 w4.
       NewStorage (world_with_file (encode [MarkDeleted (datum_Set newDatum [1] [7]),
                                            datum_Set newDatum [2] [8]]))
           ''db'' None = Returned (Inr s, w1)
     \<and> Get s [1] = ([], False) \<and> Get s [2] = ([8], True)
     \<and> run_ops w1 s [OpSet [1] [7], OpSet [2] [9], OpDelete [1], OpDelete [4]] = Returned (None, w2, s2)
     \<and> Close w2 s2 = Returned (None, w3, s3)
     \<and> NewStorage w3 ''db'' None = Returned (Inr s4, w4)
     \<and> data s4 = data s2)"
proof -
  let ?dup = "[datum_Set newDatum [3] [9], datum_Set newDatum [3] [5]]"
  let ?ds = "[MarkDeleted (datum_Set newDatum [1] [7]), datum_Set newDatum [2] [8]]"
  let ?ops = "[OpSet [1] [7], OpSet [2] [9], OpDelete [1], OpDelete [4]]"
  have f: "faults (world_with_file c) = []" for c by (simp add: world_with_file_def)
  have h: "holds_at (world_with_file c) ''db'' c" for c
    by (simp add: world_with_file_def holds_at_def)
  have z1: "\<forall>d\<in>set ?dup. sized d" by (simp add: sized_datum_Set)
  have z2: "\<forall>d\<in>set ?ds. sized d"
    by (simp add: sized_def MarkDeleted_def datum_Set_new)
  from durable_reopen [OF f h z1, where cfg = None and ops = "[]" and cfg' = None]
  obtain s w1 where
    "NewStorage (world_with_file (encode ?dup)) ''db'' None = Returned (Inr s, w1)"
    and "data s = index_from 0 ?dup Map.empty"
    by blast
  then have a: "\<exists>s w1. NewStorage (world_with_file (encode ?dup)) ''db'' None = Returned (Inr s, w1)
      \<and> Get s [3] = ([5], True) \<and> map_option datum.idx (data s [3]) = Some 11"
    by (auto simp: Get_data live_def datum_Set_new length_record_bytes)
  from durable_reopen [OF f h z2, where cfg = None and ops = ?ops and cfg' = None]
  obtain s w1 where
    n: "NewStorage (world_with_file (encode ?ds)) ''db'' None = Returned (Inr s, w1)"
    and d: "data s = index_from 0 ?ds Map.empty"
    and imp: "distinct (live_keys ?ds) \<and> (\<forall>x\<in>set ?ops. op_fits x)
          \<and> length (encode ?ds) + sum_list (map op_bytes ?ops) < 2 ^ 32
          \<and> (VacuumBatch (config_of None) = 0
               \<or> writes ?ops (live_keys ?ds) < unat (VacuumBatch (config_of None)))
        \<longrightarrow> (\<exists>s2 w2 s3 w3 s4 w4.
               run_ops w1 s ?ops = Returned (None, w2, s2)
             \<and> Close w2 s2 = Returned (None, w3, s3)
             \<and> NewStorage w3 ''db'' None = Returned (Inr s4, w4)
             \<and> data s4 = data s2)"
    by blast
  have "distinct (live_keys ?ds) \<and> (\<forall>x\<in>set ?ops. op_fits x)
          \<and> length (encode ?ds) + sum_list (map op_bytes ?ops) < 2 ^ 32
          \<and> (VacuumBatch (config_of None) = 0
               \<or> writes ?ops (live_keys ?ds) < unat (VacuumBatch (config_of None)))"
    by (simp add: live_keys_def live_def MarkDeleted_def datum_Set_new encode_def
        length_record_bytes config_of_def)
  with imp obtain s2 w2 s3 w3 s4 w4 where
    r: "run_ops w1 s ?ops = Returned (None, w2, s2)"
      "Close w2 s2 = Returned (None, w3, s3)"
      "NewStorage w3 ''db'' None = Returned (Inr s4, w4)"
      "data s4 = data s2"
    by blast
  have g: "Get s [1] = ([], False) \<and> Get s [2] = ([8], True)"
    using d by (simp add: Get_data live_def datum_Set_new MarkDeleted_def length_record_bytes)
  from n g r have b: "\<exists>s w1 s2 w2 s3 w3 s4 w4.
       NewStorage (world_with_file (encode ?ds)) ''db'' None = Returned (Inr s, w1)
     \<and> Get s [1] = ([], False) \<and> Get s [2] = ([8], True)
     \<and> run_ops w1 s ?ops = Returned (None, w2, s2)
     \<and> Close w2 s2 = Returned (None, w3, s3)
     \<and> NewStorage w3 ''db'' None = Returned (Inr s4, w4)
     \<and> data s4 = data s2"
    by blast
  from a b show ?thesis by blast
qed

text \<open>
  The claim as stated fails on a file with two live records of one key. The file holds
  the records of \<open>[3]\<close> with values \<open>[9]\<close> and \<open>[5]\<close>, both live. \<^verbatim>\<open>NewStorage\<close> installs the
  later one. \<^verbatim>\<open>Delete([3])\<close> returns \<^verbatim>\<open>nil\<close> and tombstones the record that the index points
  to, the later one; the earlier one stays live. After \<^verbatim>\<open>Close\<close> and a new \<^verbatim>\<open>NewStorage\<close>
  the index holds \<open>[3]\<close> with value \<open>[9]\<close>, while the index before \<^verbatim>\<open>Close\<close> did not hold
  the key.
\<close>

theorem durable_reopen_counterexample:
  "(case NewStorage (world_with_file [1, 0, 0, 0, 1, 0, 0, 0, 0, 3, 9,
                                      1, 0, 0, 0, 1, 0, 0, 0, 0, 3, 5]) ''db'' None of
      Returned (Inr s1, w1) \<Rightarrow>
        Get s1 [3] = ([5], True) \<and> map_option datum.idx (data s1 [3]) = Some 11 \<and>
        (case run_ops w1 s1 [OpDelete [3]] of
           Returned (None, w2, s2) \<Rightarrow>
             Get s2 [3] = ([], False) \<and>
             content w2 s2 = [1, 0, 0, 0, 1, 0, 0, 0, 0, 3, 9,
                              1, 0, 0, 0, 1, 0, 0, 0, 1, 3, 5] \<and>
             (case Close w2 s2 of
                Returned (None, w3, s3) \<Rightarrow>
                  (case NewStorage w3 ''db'' None of
                     Returned (Inr s4, w4) \<Rightarrow>
                       Get s4 [3] = ([9], True) \<and> Get s4 [3] \<noteq> Get s3 [3]
                   | _ \<Rightarrow> False)
              | _ \<Rightarrow> False)
         | _ \<Rightarrow> False)
    | _ \<Rightarrow> False)"
  by code_simp

subsection \<open>The tombstone is written before the append\<close>

text \<open>
  On a store whose index agrees with its file. The store is ready, its file is a layout
  \<open>ds\<close> (well-formed records, no two live ones with the same key, the index being that
  of the records), \<open>k\<close> is in the index with descriptor \<open>d\<close>, and the two writes stay
  below \<^verbatim>\<open>VacuumBatch\<close>. Then
  \<^verbatim>\<open>Set(k, v)\<close> returns \<^verbatim>\<open>nil\<close> and adds exactly two writes to the journal, in this order:
  the byte 1 at \<open>d.idx + 8\<close>, which is offset 8 of the live record \<open>x\<close> of \<open>k\<close>, and then
  the new record at the end of the file. After the first write the file holds the same
  records with \<open>x\<close> tombstoned and no live record of \<open>k\<close>; after the second it holds
  those and the new record; at both moments no two live records have the same key.
\<close>

lemma Set_on_layout:
  assumes "ready w s" and "layout w s ds" and "data s k = Some d"
    and "no_vacuum_within s 2"
    and "9 + length k + length v < 2 ^ 32"
    and "length (encode ds) + (9 + length k + length v) < 2 ^ 32"
  shows "\<exists>w1 s1 pre x post.
       Set w s k v = Returned (None, w1, s1)
     \<and> journal w1 = journal w @
           [(ino (dbfile s), unat (datum.idx d) + 8, [1]),
            (ino (dbfile s), length (content w s), record_bytes (datum_Set newDatum k v))]
     \<and> ds = pre @ x # post \<and> live x \<and> key x = k \<and> unat (datum.idx d) = length (encode pre)
     \<and> write_at (content w s) (unat (datum.idx d) + 8) [1] = encode (pre @ MarkDeleted x # post)
     \<and> k \<notin> set (live_keys (pre @ MarkDeleted x # post))
     \<and> distinct (live_keys (pre @ MarkDeleted x # post))
     \<and> content w1 s1 = encode (pre @ MarkDeleted x # post @ [datum_Set newDatum k v])
     \<and> distinct (live_keys (pre @ MarkDeleted x # post @ [datum_Set newDatum k v]))"
proof -
  let ?dn = "datum_Set newDatum k v"
  from layout_tombstoned [OF assms(2), of k] assms(3) obtain pre x post where
    t: "tombstoned (content w s) (data s k) = encode (pre @ MarkDeleted x # post)"
    and sp: "ds = pre @ x # post" "live x" "key x = k" "unat (datum.idx d) = length (encode pre)"
    and di: "distinct (live_keys (pre @ MarkDeleted x # post))"
      "k \<notin> set (live_keys (pre @ MarkDeleted x # post))"
    by auto
  have nv: "no_vacuum_within s ((if data s k = None then 1 else 2) + 0)"
    using assms(3,4) by simp
  from Set_step [OF assms(1) nv assms(5)] obtain w1 s1 where
    r: "Set w s k v = Returned (None, w1, s1)" "ino (dbfile s1) = ino (dbfile s)"
    and ino: "inodes w1 = (inodes w)(ino (dbfile s) := tombstoned (content w s) (data s k) @ record_bytes ?dn)"
    and j: "journal w1 = journal w
          @ (case data s k of None \<Rightarrow> [] | Some d \<Rightarrow> [(ino (dbfile s), unat (datum.idx d) + 8, [1])])
          @ [(ino (dbfile s), length (tombstoned (content w s) (data s k)), record_bytes ?dn)]"
    by blast
  have c: "content w s = encode (pre @ x # post)"
    using assms(2) sp(1) by (simp add: layout_def)
  have len: "length (tombstoned (content w s) (data s k)) = length (content w s)"
  proof -
    have "length (tombstoned (content w s) (data s k)) = length (encode (pre @ MarkDeleted x # post))"
      by (simp only: t)
    also have "\<dots> = length (encode (pre @ x # post))"
      by (rule length_encode_MarkDeleted)
    also have "\<dots> = length (content w s)"
      by (simp only: c)
    finally show ?thesis .
  qed
  have w: "write_at (content w s) (unat (datum.idx d) + 8) [1] = encode (pre @ MarkDeleted x # post)"
    using t by (simp add: tombstoned_def assms(3))
  have c1: "content w1 s1 = encode (pre @ MarkDeleted x # post @ [?dn])"
    by (simp add: content_def r(2) ino t [unfolded content_def] encode_append encode_Cons encode_def)
  have ldn: "live ?dn" "key ?dn = k" by (simp_all add: live_def datum_Set_new)
  have d2: "distinct (live_keys (pre @ MarkDeleted x # post @ [?dn]))"
    using di ldn by auto
  have j2: "journal w1 = journal w @
           [(ino (dbfile s), unat (datum.idx d) + 8, [1]),
            (ino (dbfile s), length (content w s), record_bytes ?dn)]"
    using j len by (simp add: assms(3))
  from r(1) j2 sp w di c1 d2 show ?thesis by blast
qed

lemma Set_on_layout_example:
  "ready (world_with_file [1, 0, 0, 0, 1, 0, 0, 0, 0, 1, 7]) store_one_key
   \<and> data store_one_key [1] = Some \<lparr>meta = \<lparr>keySize = 1, valSize = 1, deleted = 0\<rparr>, key = [1], dvalue = [7], idx = 0\<rparr>
   \<and> (\<exists>w1 s1. Set (world_with_file [1, 0, 0, 0, 1, 0, 0, 0, 0, 1, 7]) store_one_key [1] [8] = Returned (None, w1, s1)
        \<and> journal w1 = [(0, 8, [1]), (0, 11, [1, 0, 0, 0, 1, 0, 0, 0, 0, 1, 8])]
        \<and> content w1 s1 = [1, 0, 0, 0, 1, 0, 0, 0, 1, 1, 7,  1, 0, 0, 0, 1, 0, 0, 0, 0, 1, 8])"
proof -
  let ?w = "world_with_file [1, 0, 0, 0, 1, 0, 0, 0, 0, 1, 7]"
  let ?d = "\<lparr>meta = \<lparr>keySize = 1, valSize = 1, deleted = 0\<rparr>, key = [1], dvalue = [7], idx = 0\<rparr>"
  have r: "ready ?w store_one_key" by (simp add: ready_def world_with_file_def store_one_key_def)
  have rb: "record_bytes ?d = [1, 0, 0, 0, 1, 0, 0, 0, 0, 1, 7]"
    by (simp add: record_bytes_def meta_Bytes_def le_PutUint32_def)
  have l: "layout ?w store_one_key [?d]"
    by (auto simp add: layout_def content_def world_with_file_def store_one_key_def encode_def rb
        sized_def live_keys_def live_def)
  have d: "data store_one_key [1] = Some ?d" by (simp add: store_one_key_def)
  have nv: "no_vacuum_within store_one_key 2" by (simp add: no_vacuum_within_def store_one_key_def)
  have e: "encode [?d] = [1, 0, 0, 0, 1, 0, 0, 0, 0, 1, 7]" by (simp add: encode_def rb)
  from Set_on_layout [OF r l d nv, of "[8]"] obtain w1 s1 pre x post where
    s: "Set ?w store_one_key [1] [8] = Returned (None, w1, s1)"
    and j: "journal w1 = journal ?w @
           [(ino (dbfile store_one_key), unat (datum.idx ?d) + 8, [1]),
            (ino (dbfile store_one_key), length (content ?w store_one_key), record_bytes (datum_Set newDatum [1] [8]))]"
    and sp: "[?d] = pre @ x # post"
    and c: "content w1 s1 = encode (pre @ MarkDeleted x # post @ [datum_Set newDatum [1] [8]])"
    by (auto simp: e)
  from sp have px: "pre = []" "x = ?d" "post = []"
    by (auto simp: Cons_eq_append_conv)
  have j': "journal w1 = [(0, 8, [1]), (0, 11, [1, 0, 0, 0, 1, 0, 0, 0, 0, 1, 8])]"
    using j by (simp add: world_with_file_def store_one_key_def content_def record_bytes_def
        datum_Set_new meta_Bytes_def le_PutUint32_def)
  have c': "content w1 s1 = [1, 0, 0, 0, 1, 0, 0, 0, 1, 1, 7,  1, 0, 0, 0, 1, 0, 0, 0, 0, 1, 8]"
    using c by (simp add: px encode_def record_bytes_def MarkDeleted_def datum_Set_new
        meta_Bytes_def le_PutUint32_def)
  from r d s j' c' show ?thesis by blast
qed

text \<open>
  Claim C7 says that every \<^verbatim>\<open>Set(k, v)\<close> on a key of the index writes the tombstone byte at
  offset 8 of the old record of \<open>k\<close> before it appends the new record, so that the file
  never holds two live records of one key. \<^verbatim>\<open>Set\<close> writes the byte at \<open>d.idx + 8\<close> for the
  descriptor \<open>d\<close> that the index holds, and after a \<^verbatim>\<open>Snapshot\<close> that offset is the one in the
  snapshot file. With the default configuration, after \<^verbatim>\<open>Set([1], [7,7])\<close>, \<^verbatim>\<open>Delete([1])\<close>
  and \<^verbatim>\<open>Set([2], [8])\<close> the record of \<open>[2]\<close> is at offset 12, and \<^verbatim>\<open>Set([2], [9])\<close> writes the
  byte 1 at offset 20 and then the new record at offset 23. If \<^verbatim>\<open>Snapshot\<close> is called
  first, the same \<^verbatim>\<open>Set([2], [9])\<close> returns \<^verbatim>\<open>nil\<close>, writes the byte 1 at offset 8, inside the
  record of \<open>[1]\<close>, and then the new record at offset 23: the file holds two live records
  of \<open>[2]\<close>, at offsets 12 and 23.
\<close>

theorem set_after_snapshot_leaves_old_record:
  "(case NewStorage empty_world ''db'' None of
      Returned (Inr s1, w1) \<Rightarrow>
        (case run_ops w1 s1 [OpSet [1] [7, 7], OpDelete [1], OpSet [2] [8]] of
           Returned (None, w2, s2) \<Rightarrow>
             content w2 s2 = [1, 0, 0, 0, 2, 0, 0, 0, 1, 1, 7, 7,
                              1, 0, 0, 0, 1, 0, 0, 0, 0, 2, 8] \<and>
             (case Set w2 s2 [2] [9] of
                Returned (None, w3, s3) \<Rightarrow>
                  journal w3 = journal w2 @ [(ino (dbfile s2), 20, [1]),
                                             (ino (dbfile s2), 23, [1, 0, 0, 0, 1, 0, 0, 0, 0, 2, 9])]
                  \<and> content w3 s3 = [1, 0, 0, 0, 2, 0, 0, 0, 1, 1, 7, 7,
                                     1, 0, 0, 0, 1, 0, 0, 0, 1, 2, 8,
                                     1, 0, 0, 0, 1, 0, 0, 0, 0, 2, 9]
              | _ \<Rightarrow> False) \<and>
             (case Snapshot w2 s2 ''snap'' [[2]] of
                Returned (None, w3, s3) \<Rightarrow>
                  content w3 s3 = content w2 s2 \<and> Get s3 [2] = ([8], True) \<and>
                  (case Set w3 s3 [2] [9] of
                     Returned (None, w4, s4) \<Rightarrow>
                       journal w4 = journal w3 @ [(ino (dbfile s3), 8, [1]),
                                                  (ino (dbfile s3), 23, [1, 0, 0, 0, 1, 0, 0, 0, 0, 2, 9])]
                       \<and> content w4 s4 = [1, 0, 0, 0, 2, 0, 0, 0, 1, 1, 7, 7,
                                          1, 0, 0, 0, 1, 0, 0, 0, 0, 2, 8,
                                          1, 0, 0, 0, 1, 0, 0, 0, 0, 2, 9]
                       \<and> record_at (content w4 s4) 12
                           = Some (\<lparr>keySize = 1, valSize = 1, deleted = 0\<rparr>, [2], [8])
                       \<and> record_at (content w4 s4) 23
                           = Some (\<lparr>keySize = 1, valSize = 1, deleted = 0\<rparr>, [2], [9])
                   | _ \<Rightarrow> False)
              | _ \<Rightarrow> False)
         | _ \<Rightarrow> False)
    | _ \<Rightarrow> False)"
  by code_simp

subsection \<open>Compaction\<close>

text \<open>
  Claim C4. The store is ready (no fault is scheduled, the file is open, the mutex is
  free) and its file is a sequence of well-formed records of fewer than \<open>2 ^ 32\<close>
  bytes. Then \<^verbatim>\<open>vacuum()\<close> returns \<^verbatim>\<open>nil\<close>; the index is the index before the call; the
  file is the concatenation of the live records in their order in the file; its length
  is the sum of the sizes \<open>9 + key_size + val_size\<close> of those records; and \<^verbatim>\<open>idx\<close> is
  that length.
\<close>

theorem vacuum_compacts:
  assumes "ready w s" and "content w s = encode ds" and "\<forall>d\<in>set ds. sized d"
    and "length (encode ds) < 2 ^ 32"
  shows "\<exists>w' s'. vacuum w s = Returned (None, w', s')
     \<and> data s' = data s
     \<and> content w' s' = encode (filter live ds)
     \<and> length (content w' s')
         = sum_list (map (\<lambda>d. 9 + length (key d) + length (dvalue d)) (filter live ds))
     \<and> unat (Storage.idx s') = length (content w' s')"
proof -
  let ?L = "encode (filter live ds)"
  have fl: "faults w = []" and op: "\<not> closed (dbfile s)" and mu: "\<not> muFile s"
    using assms(1) by (simp_all add: ready_def)
  let ?s1 = "s\<lparr>muFile := True, dbfile := (dbfile s)\<lparr>pos := 0\<rparr>\<rparr>"
  let ?c0 = "\<lparr>tname = tempname w, tbytes = [], tpos = 0\<rparr>"
  let ?s2 = "?s1\<lparr>dbfile := (dbfile ?s1)\<lparr>pos := length ([]::byte list) + length (encode ds)\<rparr>,
          idx := Storage.idx ?s1 + of_nat (length (encode ds))\<rparr>"
  let ?c2 = "?c0\<lparr>tbytes := tbytes ?c0 @ ?L, tpos := length (tbytes ?c0) + length ?L\<rparr>"
  have c1: "content w ?s1 = [] @ encode ds @ []"
    using assms(2) by (simp add: content_def)
  have "vacuum_read w ?s1 ?c0 0 = vacuum_read w ?s2 ?c2 (0 + length ?L)"
    using fl op assms(3) by (intro vacuum_read_records [OF _ _ _ c1]) simp_all
  also have "\<dots> = Returned (None, w, ?s2, ?c2, 0 + length ?L)"
    using fl op assms(2) by (intro vacuum_read_eof) (simp_all add: content_def)
  finally have vr: "vacuum_read w ?s1 ?c0 0 = Returned (None, w, ?s2, ?c2, length ?L)"
    by simp
  let ?s5 = "?s2\<lparr>dbfile := (dbfile ?s2)\<lparr>pos := 0\<rparr>\<rparr>"
  let ?c4 = "?c2\<lparr>tpos := 0\<rparr>"
  have p5: "pos (dbfile ?s5) \<le> length (content w ?s5)" by simp
  have o5: "\<not> closed (dbfile ?s5)" using op by simp
  from vacuum_copy_all [OF fl o5 p5, of ?c4] obtain w6 s6 where
    vc: "vacuum_copy w ?s5 ?c4 = Returned (None, w6, s6)" and f6: "faults w6 = []"
    and i6: "inodes w6 = (inodes w)(ino (dbfile ?s5) :=
           write_at (content w ?s5) (pos (dbfile ?s5)) (drop (tpos ?c4) (tbytes ?c4)))"
    and s6: "s6 = ?s5\<lparr>dbfile := (dbfile ?s5)\<lparr>pos := pos (dbfile ?s5) + length (drop (tpos ?c4) (tbytes ?c4))\<rparr>\<rparr>"
    by blast
  have i6': "inodes w6 = (inodes w)(ino (dbfile s) := write_at (encode ds) 0 ?L)"
    using i6 assms(2) by (simp add: content_def)
  have o6: "\<not> closed (dbfile s6)" using op by (simp add: s6)
  let ?w7 = "w6\<lparr>inodes := (inodes w6)(ino (dbfile s6) := copy_into (length ?L) (inodes w6 (ino (dbfile s6))))\<rparr>"
  have tr: "os_Truncate w6 (dbfile s6) (length ?L) = (None, ?w7)"
    using f6 o6 by (simp add: os_Truncate_def)
  have v: "vacuum w s = Returned (None, ?w7, s6\<lparr>idx := of_nat (length ?L), muFile := False\<rparr>)"
    using fl op mu
    by (simp add: vacuum_def with_muFile_def os_Seek_ok Let_def seek_error_def os_CreateTemp_def
        vr tmp_Seek_def vc [simplified] tr fmt_d.simps)
  have c7: "content ?w7 (s6\<lparr>idx := of_nat (length ?L), muFile := False\<rparr>) = ?L"
    by (simp add: content_def s6 i6' truncate_after_copy)
  have le: "length ?L < 2 ^ 32"
    using length_encode_filter [of live ds] assms(4) by simp
  have ix: "unat (Storage.idx (s6\<lparr>idx := of_nat (length ?L), muFile := False\<rparr>)) = length ?L"
    using le by (simp add: unat_of_nat32)
  have da: "data (s6\<lparr>idx := of_nat (length ?L), muFile := False\<rparr>) = data s"
    by (simp add: s6)
  show ?thesis
    using v c7 ix da length_encode_sum [of "filter live ds"]
    by (intro exI conjI) (assumption | simp only: c7)+
qed

theorem vacuum_compacts_witness:
  "ready (world_with_file [1, 0, 0, 0, 1, 0, 0, 0, 1, 1, 7,  1, 0, 0, 0, 1, 0, 0, 0, 0, 2, 8]) store_one_key
   \<and> (\<exists>w' s'. vacuum (world_with_file [1, 0, 0, 0, 1, 0, 0, 0, 1, 1, 7,  1, 0, 0, 0, 1, 0, 0, 0, 0, 2, 8])
                   store_one_key = Returned (None, w', s')
        \<and> data s' = data store_one_key
        \<and> content w' s' = [1, 0, 0, 0, 1, 0, 0, 0, 0, 2, 8]
        \<and> length (content w' s') = 11
        \<and> unat (Storage.idx s') = 11)"
proof -
  let ?w = "world_with_file [1, 0, 0, 0, 1, 0, 0, 0, 1, 1, 7,  1, 0, 0, 0, 1, 0, 0, 0, 0, 2, 8]"
  let ?ds = "[\<lparr>meta = \<lparr>keySize = 1, valSize = 1, deleted = 1\<rparr>, key = [1], dvalue = [7], idx = 0\<rparr>,
              \<lparr>meta = \<lparr>keySize = 1, valSize = 1, deleted = 0\<rparr>, key = [2], dvalue = [8], idx = 0\<rparr>]"
  have r: "ready ?w store_one_key"
    by (simp add: ready_def world_with_file_def store_one_key_def)
  have e: "encode ?ds = [1, 0, 0, 0, 1, 0, 0, 0, 1, 1, 7,  1, 0, 0, 0, 1, 0, 0, 0, 0, 2, 8]"
    by (simp add: encode_def record_bytes_def meta_Bytes_def le_PutUint32_def)
  have c: "content ?w store_one_key = encode ?ds"
    by (simp add: e) (simp add: content_def world_with_file_def)
  have z: "\<forall>d\<in>set ?ds. sized d" by (simp add: sized_def)
  have l: "length (encode ?ds) < 2 ^ 32" by (simp add: e)
  have f: "encode (filter live ?ds) = [1, 0, 0, 0, 1, 0, 0, 0, 0, 2, 8]"
    by (simp add: live_def encode_def record_bytes_def meta_Bytes_def le_PutUint32_def)
  from vacuum_compacts [OF r c z l] r show ?thesis
    by (simp only: f) auto
qed

subsection \<open>The vacuum trigger\<close>

text \<open>
  Claim C9 says that a write which brings the vacuum counter to \<^verbatim>\<open>VacuumBatch\<close> runs
  \<^verbatim>\<open>vacuum()\<close> inline, resets the counter, and returns. In the code the write holds
  \<^verbatim>\<open>muFile\<close> while it calls \<^verbatim>\<open>incAndSync\<close>, and \<^verbatim>\<open>vacuum\<close> starts by locking \<^verbatim>\<open>muFile\<close>
  again. On a store opened with \<^verbatim>\<open>VacuumBatch = 1\<close> on an empty file, the first \<^verbatim>\<open>Set\<close>
  blocks for ever.
\<close>

theorem vacuum_trigger_blocks:
  "(case NewStorage empty_world ''db'' (Some \<lparr>VacuumBatch = 1, FsyncBatch = 0\<rparr>) of
      Returned (Inr s, w) \<Rightarrow> (case Set w s [0x61] [0x62] of Blocked \<Rightarrow> True | _ \<Rightarrow> False)
    | _ \<Rightarrow> False)"
  by code_simp

subsection \<open>Offsets in the index after a vacuum and after a snapshot\<close>

text \<open>
  Claim C2 says that after every operation, a completed \<^verbatim>\<open>vacuum()\<close> included, each key
  of the index has a live record with that key at the offset of its descriptor. With
  \<^verbatim>\<open>VacuumBatch = 0\<close>, after \<^verbatim>\<open>Set([1], [7,7])\<close>, \<^verbatim>\<open>Set([2], [8])\<close> and \<^verbatim>\<open>Delete([1])\<close> the entry
  of \<open>[2]\<close> satisfies this at offset 12. A direct call of \<^verbatim>\<open>vacuum()\<close> then leaves a file of
  11 bytes, the record of \<open>[2]\<close> at offset 0, and the descriptor still at offset 12: no
  record is there. A following \<^verbatim>\<open>Delete([2])\<close> writes its tombstone at offset 20, beyond the
  end of the file, while the record of \<open>[2]\<close> stays live; after \<^verbatim>\<open>Close\<close> the file can no
  longer be opened.
\<close>

theorem vacuum_leaves_stale_offsets:
  "(case NewStorage empty_world ''db'' (Some \<lparr>VacuumBatch = 0, FsyncBatch = 0\<rparr>) of
      Returned (Inr s1, w1) \<Rightarrow>
        (case run_ops w1 s1 [OpSet [1] [7, 7], OpSet [2] [8], OpDelete [1]] of
           Returned (None, w2, s2) \<Rightarrow>
             index_entry_ok w2 s2 [2] \<and>
             (case vacuum w2 s2 of
                Returned (None, w3, s3) \<Rightarrow>
                  content w3 s3 = [1, 0, 0, 0, 1, 0, 0, 0, 0, 2, 8]
                  \<and> map_option datum.idx (data s3 [2]) = Some 12
                  \<and> \<not> index_entry_ok w3 s3 [2]
                  \<and> (case Delete w3 s3 [2] of
                        Returned (None, w4, s4) \<Rightarrow>
                          Get s4 [2] = ([], False) \<and>
                          (case Close w4 s4 of
                             Returned (None, w5, s5) \<Rightarrow>
                               content w5 s5 = [1, 0, 0, 0, 1, 0, 0, 0, 0, 2, 8,
                                                0, 0, 0, 0, 0, 0, 0, 0, 0, 1] \<and>
                               (case NewStorage w5 ''db'' (Some \<lparr>VacuumBatch = 0, FsyncBatch = 0\<rparr>) of
                                  Returned (Inl e, w6) \<Rightarrow>
                                    message e = ''reading datum: reading database file: reading key/val data: read 0 bytes, need 1''
                                | _ \<Rightarrow> False)
                           | _ \<Rightarrow> False)
                      | _ \<Rightarrow> False)
              | _ \<Rightarrow> False)
         | _ \<Rightarrow> False)
    | _ \<Rightarrow> False)"
  by code_simp

text \<open>
  Claim C5 says that \<^verbatim>\<open>Snapshot\<close> leaves the index and the file of the source store
  unchanged. \<^verbatim>\<open>Snapshot\<close> hands the datum that the index of the source points to to
  \<^verbatim>\<open>snap.writeDatumToFile\<close>, which stamps its offset in the snapshot file on it. With
  the default configuration, after \<^verbatim>\<open>Set([1], [7,7])\<close>, \<^verbatim>\<open>Delete([1])\<close> and
  \<^verbatim>\<open>Set([2], [8])\<close> the descriptor of \<open>[2]\<close> is at offset 12, where its record is. After
  \<^verbatim>\<open>Snapshot\<close> the file of the source is the same, the snapshot opens to exactly the key
  \<open>[2]\<close> with its value, but the descriptor of \<open>[2]\<close> in the source is at offset 0, where
  the tombstoned record of \<open>[1]\<close> is. A following \<^verbatim>\<open>Delete([2])\<close> tombstones that record
  again, and after \<^verbatim>\<open>Close\<close> and a new \<^verbatim>\<open>NewStorage\<close> the deleted key is back.
\<close>

theorem snapshot_changes_source_offsets:
  "(case NewStorage empty_world ''db'' None of
      Returned (Inr s1, w1) \<Rightarrow>
        (case run_ops w1 s1 [OpSet [1] [7, 7], OpDelete [1], OpSet [2] [8]] of
           Returned (None, w2, s2) \<Rightarrow>
             index_entry_ok w2 s2 [2] \<and> map_option datum.idx (data s2 [2]) = Some 12 \<and>
             (case Snapshot w2 s2 ''snap'' [[2]] of
                Returned (None, w3, s3) \<Rightarrow>
                  content w3 s3 = content w2 s2
                  \<and> (case NewStorage w3 ''snap'' None of
                        Returned (Inr b, w') \<Rightarrow>
                          Get b [1] = ([], False) \<and> Get b [2] = ([8], True)
                      | _ \<Rightarrow> False)
                  \<and> map_option datum.idx (data s3 [2]) = Some 0
                  \<and> \<not> index_entry_ok w3 s3 [2]
                  \<and> (case Delete w3 s3 [2] of
                        Returned (None, w4, s4) \<Rightarrow>
                          Get s4 [2] = ([], False) \<and>
                          (case Close w4 s4 of
                             Returned (None, w5, s5) \<Rightarrow>
                               (case NewStorage w5 ''db'' None of
                                  Returned (Inr s6, w6) \<Rightarrow> Get s6 [2] = ([8], True)
                                | _ \<Rightarrow> False)
                           | _ \<Rightarrow> False)
                      | _ \<Rightarrow> False)
              | _ \<Rightarrow> False)
         | _ \<Rightarrow> False)
    | _ \<Rightarrow> False)"
  by code_simp

end
